theory Spec2Isabelle
  imports Complex_Main "HOL-Library.Word" "HOL-Library.Sublist"
begin

unbundle bit_operations_syntax

section \<open>Packets and the checksum (channel.py)\<close>

text \<open>
  A packet is a Python dictionary with the optional keys \<^verbatim>\<open>type\<close>, \<^verbatim>\<open>seq\<close>,
  \<^verbatim>\<open>ack\<close>, \<^verbatim>\<open>payload\<close>, \<^verbatim>\<open>checksum\<close> and \<^verbatim>\<open>corrupted\<close>. A key that is
  absent is \<open>None\<close>. A payload is a \<^verbatim>\<open>bytes\<close> object, a list of bytes; Python integers
  are unbounded, hence \<open>int\<close>.
\<close>

type_synonym byte = "8 word"

record packet =
  pkt_type :: "string option"
  pkt_seq :: "int option"
  pkt_ack :: "int option"
  pkt_payload :: "byte list option"
  pkt_checksum :: "int option"
  pkt_corrupted :: "bool option"

text \<open>
  \<^verbatim>\<open>calculate_checksum\<close>: the XOR of the code points of the type, of \<^verbatim>\<open>seq\<close>, of
  \<^verbatim>\<open>ack\<close> and of the payload bytes, masked with \<^verbatim>\<open>0xFFFF\<close>. The two truth tests
  \<^verbatim>\<open>pkt.get("type")\<close> and \<^verbatim>\<open>pkt.get("payload")\<close> skip an absent and an empty value; the
  loop over an empty value does nothing, so both are the same fold.
\<close>

definition xor_chars :: "int \<Rightarrow> string \<Rightarrow> int" where
  "xor_chars c t = foldl (\<lambda>acc ch. acc XOR of_char ch) c t"

definition xor_bytes :: "int \<Rightarrow> byte list \<Rightarrow> int" where
  "xor_bytes c bs = foldl (\<lambda>acc b. acc XOR uint b) c bs"

definition calculate_checksum :: "packet \<Rightarrow> int" where
  "calculate_checksum pkt =
     (let c0 = 0;
          c1 = (case pkt_type pkt of None \<Rightarrow> c0 | Some t \<Rightarrow> xor_chars c0 t);
          c2 = (case pkt_seq pkt of None \<Rightarrow> c1 | Some s \<Rightarrow> c1 XOR s);
          c3 = (case pkt_ack pkt of None \<Rightarrow> c2 | Some a \<Rightarrow> c2 XOR a);
          c4 = (case pkt_payload pkt of None \<Rightarrow> c3 | Some bs \<Rightarrow> xor_bytes c3 bs)
      in c4 AND 65535)"

definition verify_checksum :: "packet \<Rightarrow> bool" where
  "verify_checksum pkt =
     (case pkt_checksum pkt of
        None \<Rightarrow> True
      | Some c \<Rightarrow> c = calculate_checksum pkt)"

definition add_checksum :: "packet \<Rightarrow> packet" where
  "add_checksum pkt = pkt\<lparr>pkt_checksum := Some (calculate_checksum pkt)\<rparr>"

section \<open>The unreliable link (channel.py, class UnreliableLink)\<close>

text \<open>
  A packet that travels through the link is a Python object; the link stores and returns
  the object itself, not a copy. An object is a reference \<open>ref\<close> into a store of packets.
  Every call of \<^verbatim>\<open>random.random()\<close>, \<^verbatim>\<open>random.randint\<close> and \<^verbatim>\<open>random.uniform\<close>
  is an argument of the function that makes the call: the value the generator returned.
  Probabilities and times are Python floats; they are read as real numbers.
\<close>

type_synonym ref = nat

record link =
  loss :: real
  delay_mean_ms :: real
  delay_jitter_ms :: real
  reorder_prob :: real
  corruption_prob :: real
  reorder_buffer :: "ref option"
  link_packets_sent :: nat
  link_packets_lost :: nat
  link_packets_corrupted :: nat
  link_packets_reordered :: nat

definition new_link :: "real \<Rightarrow> real \<Rightarrow> real \<Rightarrow> real \<Rightarrow> real \<Rightarrow> link" where
  "new_link ls mean jitter reorder corruption =
     \<lparr>loss = ls, delay_mean_ms = mean, delay_jitter_ms = jitter, reorder_prob = reorder,
      corruption_prob = corruption, reorder_buffer = None, link_packets_sent = 0,
      link_packets_lost = 0, link_packets_corrupted = 0, link_packets_reordered = 0\<rparr>"

text \<open>\<^verbatim>\<open>_sample_delay\<close>; \<open>jitter\<close> is the value of \<^verbatim>\<open>random.uniform\<close>.\<close>

definition sample_delay :: "link \<Rightarrow> real \<Rightarrow> real" where
  "sample_delay l jitter = max 0 ((delay_mean_ms l + jitter) / 1000)"

text \<open>\<^verbatim>\<open>maybe_drop\<close>; \<open>r\<close> is the value of \<^verbatim>\<open>random.random()\<close>.\<close>

definition maybe_drop :: "link \<Rightarrow> real \<Rightarrow> bool" where
  "maybe_drop l r \<longleftrightarrow> r < loss l"

text \<open>
  \<^verbatim>\<open>maybe_corrupt\<close>: \<open>r\<close> is the value of \<^verbatim>\<open>random.random()\<close> and \<open>i\<close> the value of
  \<^verbatim>\<open>random.randint(0, len(payload) - 1)\<close>, so \<open>i < length bs\<close> whenever it is drawn.
  The byte at \<open>i\<close> becomes \<^verbatim>\<open>(b + 1) % 256\<close>, the successor in \<open>8 word\<close>. The function
  returns the packet's new contents and the link with its counter.
\<close>

definition maybe_corrupt :: "link \<Rightarrow> packet \<Rightarrow> real \<Rightarrow> nat \<Rightarrow> packet \<times> link" where
  "maybe_corrupt l pkt r i =
     (case pkt_payload pkt of
        None \<Rightarrow> (pkt, l)
      | Some bs \<Rightarrow>
          if r < corruption_prob l \<and> bs \<noteq> [] then
            (pkt\<lparr>pkt_payload := Some (bs[i := bs ! i + 1]), pkt_corrupted := Some True\<rparr>,
             l\<lparr>link_packets_corrupted := link_packets_corrupted l + 1\<rparr>)
          else (pkt, l))"

text \<open>
  \<^verbatim>\<open>maybe_reorder\<close>: a call draws at most one random number \<open>r\<close>: in the first test when
  the buffer is empty, in the conditional expression of the second branch when it is not.
  The result is the packet to send now (\<open>None\<close>: nothing now) and the link.
\<close>

definition maybe_reorder :: "link \<Rightarrow> ref \<Rightarrow> real \<Rightarrow> ref option \<times> link" where
  "maybe_reorder l pkt r =
     (if reorder_prob l \<le> 0 then (Some pkt, l)
      else if reorder_buffer l = None \<and> r < reorder_prob l then
        (None, l\<lparr>reorder_buffer := Some pkt,
                 link_packets_reordered := link_packets_reordered l + 1\<rparr>)
      else
        (case reorder_buffer l of
           Some out \<Rightarrow>
             (Some out, l\<lparr>reorder_buffer := (if r < reorder_prob l then Some pkt else None)\<rparr>)
         | None \<Rightarrow> (Some pkt, l)))"

text \<open>
  A sequence of calls of \<^verbatim>\<open>maybe_reorder\<close> on one link, each with its packet and its
  draw: the results of the calls in order, and the link after the last call.
\<close>

fun reorder_calls :: "link \<Rightarrow> (ref \<times> real) list \<Rightarrow> ref option list \<times> link" where
  "reorder_calls l [] = ([], l)"
| "reorder_calls l (c # cs) =
     (let res = maybe_reorder l (fst c) (snd c);
          rest = reorder_calls (snd res) cs
      in (fst res # fst rest, snd rest))"

text \<open>The packets that the calls returned, in order, and the packet a link holds.\<close>

fun returned :: "'a option list \<Rightarrow> 'a list" where
  "returned [] = []"
| "returned (None # os) = returned os"
| "returned (Some x # os) = x # returned os"

definition held :: "link \<Rightarrow> ref list" where
  "held l = (case reorder_buffer l of None \<Rightarrow> [] | Some p \<Rightarrow> [p])"

text \<open>
  No draw made while a packet is held fails: in every call of the sequence that finds
  the buffer occupied, the draw is below \<^verbatim>\<open>reorder_prob\<close>.
\<close>

fun release_draws_succeed :: "link \<Rightarrow> (ref \<times> real) list \<Rightarrow> bool" where
  "release_draws_succeed l [] = True"
| "release_draws_succeed l (c # cs) =
     ((reorder_buffer l = None \<or> snd c < reorder_prob l) \<and>
      release_draws_succeed (snd (maybe_reorder l (fst c) (snd c))) cs)"

section \<open>The store of packet objects\<close>

text \<open>
  The endpoint keeps in \<^verbatim>\<open>sent\<close> the very dictionary it hands to the channel, and the
  channel writes into that dictionary (\<^verbatim>\<open>add_checksum\<close>, \<^verbatim>\<open>maybe_corrupt\<close>). The
  dictionaries therefore live in a store: a cell for every reference, and the next unused
  reference. Creating a dictionary takes the next reference.
\<close>

record store =
  cells :: "ref \<Rightarrow> packet"
  next_ref :: ref

definition alloc :: "packet \<Rightarrow> store \<Rightarrow> ref \<times> store" where
  "alloc pkt st =
     (next_ref st, st\<lparr>cells := (cells st)(next_ref st := pkt), next_ref := next_ref st + 1\<rparr>)"

section \<open>The endpoint (tcp\_like.py, class TCPishEndpoint)\<close>

text \<open>
  The fields of the class, without the lock, the channel hook and the start time (the
  start time is read only for the time stamps of log entries). Sequence numbers and
  \<^verbatim>\<open>rto_ms\<close> are Python integers; \<^verbatim>\<open>cwnd\<close> starts as an integer and becomes a float
  in congestion avoidance, it is a real number here, as are all times. \<^verbatim>\<open>timer\<close> is the
  Timer object the field refers to, given by its interval in seconds. A log entry is
  given by its event type; an entry's time stamp and data are not modelled.
  The field \<^verbatim>\<open>k\<close> is called \<open>rto_k\<close>.
\<close>

datatype py_error = KeyError | TypeError | ZeroDivisionError

record endpoint =
  name :: string
  nextseq :: int
  base :: int
  window :: int
  sent :: "int \<rightharpoonup> ref"
  sent_ts :: "int \<rightharpoonup> real"
  app_rx :: "byte list list"
  alpha :: real
  beta :: real
  rto_k :: real
  srtt :: "real option"
  rttvar :: "real option"
  rto_ms :: int
  timer :: "real option"
  last_acked :: int
  dup_count :: nat
  enable_congestion_control :: bool
  ssthresh :: int
  cwnd :: real
  ai_factor :: real
  md_factor :: real
  log_events :: "string list"
  packets_sent :: nat
  packets_received :: nat
  retransmissions :: nat
  timeouts :: nat
  fast_retransmits :: nat
  rtt_samples :: "real list"

text \<open>\<^verbatim>\<open>__init__\<close>, with the arguments in the order of the source.\<close>

definition new_endpoint ::
  "string \<Rightarrow> int \<Rightarrow> real \<Rightarrow> real \<Rightarrow> real \<Rightarrow> bool \<Rightarrow> int \<Rightarrow> real \<Rightarrow> real \<Rightarrow> real \<Rightarrow> endpoint" where
  "new_endpoint nm init_rto_ms al be kk ecc ssthresh_init cwnd_init ai md =
     \<lparr>name = nm, nextseq = 0, base = 0, window = 8, sent = Map.empty, sent_ts = Map.empty,
      app_rx = [], alpha = al, beta = be, rto_k = kk, srtt = None, rttvar = None,
      rto_ms = init_rto_ms, timer = None, last_acked = - 1, dup_count = 0,
      enable_congestion_control = ecc, ssthresh = ssthresh_init, cwnd = cwnd_init,
      ai_factor = ai, md_factor = md, log_events = [], packets_sent = 0,
      packets_received = 0, retransmissions = 0, timeouts = 0, fast_retransmits = 0,
      rtt_samples = []\<rparr>"

text \<open>The defaults of the constructor: \<^verbatim>\<open>TCPishEndpoint(name)\<close>.\<close>

definition default_endpoint :: "string \<Rightarrow> endpoint" where
  "default_endpoint nm = new_endpoint nm 200 (1 / 8) (1 / 4) 4 True 65535 1 1 (1 / 2)"

text \<open>Python's \<^verbatim>\<open>int(x)\<close> on a float: truncation towards zero.\<close>

definition py_int :: "real \<Rightarrow> int" where
  "py_int x = (if 0 \<le> x then \<lfloor>x\<rfloor> else \<lceil>x\<rceil>)"

text \<open>\<^verbatim>\<open>_log_event\<close>: append, and keep the newest 10000 entries.\<close>

definition log_event :: "string \<Rightarrow> endpoint \<Rightarrow> endpoint" where
  "log_event ev e =
     (let lg = log_events e @ [ev]
      in e\<lparr>log_events := (if length lg > 10000 then drop (length lg - 10000) lg else lg)\<rparr>)"

definition cancel_timer :: "endpoint \<Rightarrow> endpoint" where
  "cancel_timer e =
     (case timer e of
        None \<Rightarrow> e
      | Some t \<Rightarrow> log_event ''TIMER_CANCELLED'' (e\<lparr>timer := None\<rparr>))"

definition set_timer :: "endpoint \<Rightarrow> endpoint" where
  "set_timer e =
     (let e1 = cancel_timer e;
          e2 = e1\<lparr>timer := Some (real_of_int (rto_ms e1) / 1000)\<rparr>
      in log_event ''TIMER_STARTED'' e2)"

text \<open>The two dictionary literals of the endpoint: a DATA packet and a cumulative ACK.\<close>

definition data_packet :: "int \<Rightarrow> byte list \<Rightarrow> packet" where
  "data_packet sq data =
     \<lparr>pkt_type = Some ''DATA'', pkt_seq = Some sq, pkt_ack = None, pkt_payload = Some data,
      pkt_checksum = None, pkt_corrupted = None\<rparr>"

definition ack_packet :: "int \<Rightarrow> packet" where
  "ack_packet a =
     \<lparr>pkt_type = Some ''ACK'', pkt_seq = None, pkt_ack = Some a, pkt_payload = None,
      pkt_checksum = None, pkt_corrupted = None\<rparr>"

text \<open>
  The methods of the endpoint return, next to their result and the new endpoint, the
  packets they passed to \<^verbatim>\<open>self._channel_send\<close>, in the order of the calls. The channel's
  send path neither reads nor writes the endpoint, and the endpoint does not read the
  packet after the call, so the call can be made when the method has returned. A method
  that creates a dictionary takes the store and returns it.

  \<^verbatim>\<open>send_data\<close>: \<open>now\<close> is the value of \<^verbatim>\<open>time.time()\<close>.
\<close>

definition send_data ::
  "byte list \<Rightarrow> real \<Rightarrow> endpoint \<Rightarrow> store \<Rightarrow> bool \<times> endpoint \<times> store \<times> ref list" where
  "send_data data now e st =
     (let effective_window =
            (if enable_congestion_control e then cwnd e else real_of_int (window e))
      in if real_of_int (nextseq e) < real_of_int (base e) + effective_window then
           let sq = nextseq e;
               al = alloc (data_packet sq data) st;
               e1 = e\<lparr>sent := (sent e)(sq \<mapsto> fst al)\<rparr>;
               e2 = e1\<lparr>sent_ts := (sent_ts e1)(sq \<mapsto> now)\<rparr>;
               e3 = e2\<lparr>packets_sent := packets_sent e2 + 1\<rparr>;
               e4 = log_event ''PACKET_SENT'' e3;
               e5 = (if base e4 = sq then set_timer e4 else e4);
               e6 = e5\<lparr>nextseq := nextseq e5 + 1\<rparr>
           in (True, e6, snd al, [fst al])
         else (False, e, st, []))"

text \<open>
  \<^verbatim>\<open>_timeout\<close>. \<^verbatim>\<open>rto_ms\<close> is an integer, so \<^verbatim>\<open>int(self.rto_ms * 2)\<close> is the product.
\<close>

definition timeout :: "real \<Rightarrow> endpoint \<Rightarrow> endpoint \<times> ref list" where
  "timeout now e =
     (let e1 = e\<lparr>timeouts := timeouts e + 1\<rparr>;
          e2 = log_event ''TIMEOUT'' e1
      in case sent e2 (base e2) of
           None \<Rightarrow> (e2, [])
         | Some r \<Rightarrow>
             let e3 = e2\<lparr>sent_ts := (sent_ts e2)(base e2 \<mapsto> now)\<rparr>;
                 e4 = e3\<lparr>retransmissions := retransmissions e3 + 1\<rparr>;
                 e5 = (if enable_congestion_control e4 then
                         let e4a = e4\<lparr>ssthresh := max 2 (py_int (cwnd e4 * md_factor e4))\<rparr>;
                             e4b = e4a\<lparr>cwnd := 1\<rparr>
                         in log_event ''CONGESTION_CONTROL_MD'' e4b
                       else e4);
                 e6 = e5\<lparr>rto_ms := min 60000 (rto_ms e5 * 2)\<rparr>;
                 e7 = set_timer e6
             in (e7, [r]))"

text \<open>
  The body of \<^verbatim>\<open>on_receive\<close> for a DATA packet whose \<^verbatim>\<open>seq\<close> is \<^verbatim>\<open>last_acked + 1\<close>.
  The division \<^verbatim>\<open>self.ai_factor / self.cwnd\<close> raises ZeroDivisionError at zero, in the
  update and again in the data of the log entry, where \<^verbatim>\<open>self.cwnd\<close> is the new value:
  the exception leaves the endpoint as the statements before it made it.
\<close>

definition accept_data :: "byte list \<Rightarrow> endpoint \<Rightarrow> (py_error \<times> endpoint) + endpoint" where
  "accept_data pl e =
     (let e1 = e\<lparr>app_rx := app_rx e @ [pl]\<rparr>;
          e2 = e1\<lparr>last_acked := last_acked e1 + 1\<rparr>;
          e3 = e2\<lparr>packets_received := packets_received e2 + 1\<rparr>;
          e4 = log_event ''PACKET_RECEIVED'' e3
      in if enable_congestion_control e4 \<and> cwnd e4 < real_of_int (ssthresh e4) then
           Inr (log_event ''CONGESTION_CONTROL_SS'' (e4\<lparr>cwnd := cwnd e4 + 1\<rparr>))
         else if enable_congestion_control e4 then
           if cwnd e4 = 0 then Inl (ZeroDivisionError, e4)
           else
             let e5 = e4\<lparr>cwnd := cwnd e4 + ai_factor e4 / cwnd e4\<rparr>
             in if cwnd e5 = 0 then Inl (ZeroDivisionError, e5)
                else Inr (log_event ''CONGESTION_CONTROL_CA'' e5)
         else Inr e4)"

text \<open>
  The RTT sample of \<^verbatim>\<open>on_receive\<close>. With \<^verbatim>\<open>srtt\<close> set and \<^verbatim>\<open>rttvar\<close> not, the
  product \<^verbatim>\<open>(1 - self.beta) * self.rttvar\<close> raises TypeError.
\<close>

definition rtt_update :: "real \<Rightarrow> endpoint \<Rightarrow> (py_error \<times> endpoint) + endpoint" where
  "rtt_update sample e =
     (let e1 = e\<lparr>rtt_samples := rtt_samples e @ [sample * 1000]\<rparr>
      in case srtt e1 of
           None \<Rightarrow>
             let e2 = e1\<lparr>srtt := Some sample\<rparr>;
                 e3 = e2\<lparr>rttvar := Some (sample / 2)\<rparr>;
                 e4 = e3\<lparr>rto_ms := py_int (1000 * (sample + rto_k e3 * (sample / 2)))\<rparr>;
                 e5 = e4\<lparr>rto_ms := max 100 (min (rto_ms e4) 60000)\<rparr>
             in Inr (log_event ''RTT_UPDATE'' e5)
         | Some sr \<Rightarrow>
             (case rttvar e1 of
                None \<Rightarrow> Inl (TypeError, e1)
              | Some rv \<Rightarrow>
                  let rv' = (1 - beta e1) * rv + beta e1 * \<bar>sr - sample\<bar>;
                      e2 = e1\<lparr>rttvar := Some rv'\<rparr>;
                      sr' = (1 - alpha e2) * sr + alpha e2 * sample;
                      e3 = e2\<lparr>srtt := Some sr'\<rparr>;
                      e4 = e3\<lparr>rto_ms := py_int (1000 * (sr' + rto_k e3 * rv'))\<rparr>;
                      e5 = e4\<lparr>rto_ms := max 100 (min (rto_ms e4) 60000)\<rparr>
                  in Inr (log_event ''RTT_UPDATE'' e5)))"

text \<open>
  The ACK branch of \<^verbatim>\<open>on_receive\<close>, \<open>a\<close> being \<^verbatim>\<open>pkt["ack"]\<close>, in three parts:
  the statements after the RTT sample of a new ACK (\<open>slide_window\<close>), the statements of a
  fast retransmit after the call of \<^verbatim>\<open>self._channel_send\<close> and the counter before it
  (\<open>fast_retransmit\<close>), and the branch itself.
\<close>

definition slide_window :: "int \<Rightarrow> endpoint \<Rightarrow> endpoint" where
  "slide_window a e1 =
     (let e2 = e1\<lparr>base := a + 1\<rparr>;
          e3 = (if base e2 = nextseq e2 then cancel_timer e2 else set_timer e2)
      in e3\<lparr>dup_count := 0\<rparr>)"

definition fast_retransmit :: "real \<Rightarrow> endpoint \<Rightarrow> endpoint" where
  "fast_retransmit now e2 =
     (let e3 = e2\<lparr>fast_retransmits := fast_retransmits e2 + 1\<rparr>;
          e4 = e3\<lparr>sent_ts := (sent_ts e3)(base e3 \<mapsto> now)\<rparr>;
          e5 = e4\<lparr>retransmissions := retransmissions e4 + 1\<rparr>;
          e6 = (if enable_congestion_control e5 then
                  let e5a = e5\<lparr>ssthresh := max 2 (py_int (cwnd e5 * md_factor e5))\<rparr>;
                      e5b = e5a\<lparr>cwnd := real_of_int (ssthresh e5a)\<rparr>
                  in log_event ''FAST_RETRANSMIT'' e5b
                else e5)
      in set_timer e6)"

definition on_ack :: "int \<Rightarrow> real \<Rightarrow> endpoint \<Rightarrow> (py_error \<times> endpoint) + (endpoint \<times> ref list)" where
  "on_ack a now e =
     (if a \<ge> base e then
        (case (case sent_ts e a of
                 None \<Rightarrow> Inr e
               | Some ts \<Rightarrow> rtt_update (max 0 (now - ts)) e) of
           Inl err \<Rightarrow> Inl err
         | Inr e1 \<Rightarrow> Inr (slide_window a e1, []))
      else if a = last_acked e then
        let e1 = e\<lparr>dup_count := dup_count e + 1\<rparr>;
            e2 = log_event ''DUPLICATE_ACK'' e1
        in if dup_count e2 \<ge> 3 then
             (case sent e2 (base e2) of
                None \<Rightarrow> Inr (e2, [])
              | Some r \<Rightarrow> Inr (fast_retransmit now e2, [r]))
           else Inr (e2, [])
      else Inr (e, []))"

text \<open>
  \<^verbatim>\<open>on_receive\<close>. The packet is read where the source reads it: \<^verbatim>\<open>pkt["type"]\<close>,
  \<^verbatim>\<open>pkt["seq"]\<close>, \<^verbatim>\<open>pkt["payload"]\<close> and \<^verbatim>\<open>pkt["ack"]\<close> raise KeyError on a missing key,
  each before the first assignment of its branch. The argument \<^verbatim>\<open>direction\<close> is not
  used by the source. The cumulative ACK is a new dictionary.
\<close>

definition on_receive ::
  "packet \<Rightarrow> real \<Rightarrow> endpoint \<Rightarrow> store \<Rightarrow> (py_error \<times> endpoint) + (endpoint \<times> store \<times> ref list)" where
  "on_receive pkt now e st =
     (case pkt_type pkt of
        None \<Rightarrow> Inl (KeyError, e)
      | Some t \<Rightarrow>
          if t = ''DATA'' then
            (case pkt_seq pkt of
               None \<Rightarrow> Inl (KeyError, e)
             | Some sq \<Rightarrow>
                 (case (if sq = last_acked e + 1 then
                          (case pkt_payload pkt of
                             None \<Rightarrow> Inl (KeyError, e)
                           | Some pl \<Rightarrow> accept_data pl e)
                        else Inr e) of
                    Inl err \<Rightarrow> Inl err
                  | Inr e1 \<Rightarrow>
                      let al = alloc (ack_packet (last_acked e1)) st;
                          e2 = log_event ''ACK_SENT'' e1
                      in Inr (e2, snd al, [fst al])))
          else if t = ''ACK'' then
            (case pkt_ack pkt of
               None \<Rightarrow> Inl (KeyError, e)
             | Some a \<Rightarrow>
                 (case on_ack a now e of
                    Inl err \<Rightarrow> Inl err
                  | Inr res \<Rightarrow> Inr (fst res, st, snd res)))
          else Inr (e, st, []))"

definition recv_app_data :: "endpoint \<Rightarrow> byte list option \<times> endpoint" where
  "recv_app_data e =
     (case app_rx e of
        [] \<Rightarrow> (None, e)
      | x # xs \<Rightarrow> (Some x, e\<lparr>app_rx := xs\<rparr>))"

text \<open>
  One endpoint in any environment: the calls the application, the channel and the timer
  thread can make, and the endpoint after each. A call of \<^verbatim>\<open>on_receive\<close> that raises
  leaves the endpoint as it was at the exception. The timer thread is not stopped by
  \<^verbatim>\<open>cancel\<close> once it waits for the lock, so \<^verbatim>\<open>_timeout\<close> can run in any state.
\<close>

datatype ep_call =
  Call_send_data "byte list" real
| Call_on_receive packet real
| Call_timeout real
| Call_recv_app_data

fun ep_step :: "endpoint \<Rightarrow> store \<Rightarrow> ep_call \<Rightarrow> endpoint" where
  "ep_step e st (Call_send_data data now) = fst (snd (send_data data now e st))"
| "ep_step e st (Call_on_receive pkt now) =
     (case on_receive pkt now e st of
        Inl err \<Rightarrow> snd err
      | Inr res \<Rightarrow> fst res)"
| "ep_step e st (Call_timeout now) = fst (timeout now e)"
| "ep_step e st Call_recv_app_data = snd (recv_app_data e)"

inductive ep_reachable :: "endpoint \<Rightarrow> endpoint \<Rightarrow> bool" for e0 :: endpoint where
  ep_start: "ep_reachable e0 e0"
| ep_next: "ep_reachable e0 e \<Longrightarrow> ep_reachable e0 (ep_step e st c)"

text \<open>A run of calls on one endpoint; the dictionaries it creates go into the store.\<close>

fun ep_step_store :: "endpoint \<times> store \<Rightarrow> ep_call \<Rightarrow> endpoint \<times> store" where
  "ep_step_store (e, st) (Call_send_data data now) =
     (let res = send_data data now e st in (fst (snd res), fst (snd (snd res))))"
| "ep_step_store (e, st) (Call_on_receive pkt now) =
     (case on_receive pkt now e st of
        Inl err \<Rightarrow> (snd err, st)
      | Inr res \<Rightarrow> (fst res, fst (snd res)))"
| "ep_step_store (e, st) (Call_timeout now) = (fst (timeout now e), st)"
| "ep_step_store (e, st) Call_recv_app_data = (snd (recv_app_data e), st)"

definition ep_run :: "endpoint \<times> store \<Rightarrow> ep_call list \<Rightarrow> endpoint \<times> store" where
  "ep_run s cs = foldl ep_step_store s cs"

definition empty_store :: store where
  "empty_store =
     \<lparr>cells = (\<lambda>r. \<lparr>pkt_type = None, pkt_seq = None, pkt_ack = None, pkt_payload = None,
                     pkt_checksum = None, pkt_corrupted = None\<rparr>),
      next_ref = 0\<rparr>"

section \<open>The channel (channel.py, class UnreliableChannel)\<close>

text \<open>
  The direction strings \<^verbatim>\<open>"A"\<close> and \<^verbatim>\<open>"B"\<close> name the sending side. One call of
  \<^verbatim>\<open>_send\<close> draws at most once in \<^verbatim>\<open>maybe_drop\<close>, twice in \<^verbatim>\<open>maybe_corrupt\<close>, once
  in \<^verbatim>\<open>maybe_reorder\<close> and once in \<^verbatim>\<open>_sample_delay\<close>: the record \<open>draws\<close> holds the
  values returned.
\<close>

datatype side = Side_A | Side_B

record draws =
  drop_draw :: real
  corrupt_draw :: real
  corrupt_index :: nat
  reorder_draw :: real
  jitter_draw :: real

text \<open>
  The state of two endpoints wired by a channel: the fields of the channel object, the
  store of packet dictionaries, and the delivery timers that \<^verbatim>\<open>_send\<close> has started and
  that have not run yet, each with its delay, its direction and its packet
  (\<^verbatim>\<open>maybe_pkt\<close> of the closure \<^verbatim>\<open>deliver\<close>). A log entry is given by its event type.
\<close>

record channel =
  endpoint_A :: endpoint
  endpoint_B :: endpoint
  ab :: link
  ba :: link
  enable_logging :: bool
  channel_log :: "string list"
  packets :: store
  deliveries :: "(real \<times> side \<times> ref) list"

text \<open>
  The constructor: \<^verbatim>\<open>ab_link or UnreliableLink()\<close> takes the default link when no
  link is given. The two links are two objects, as the defaults of the constructor make
  them; one link object given for both directions (as \<^verbatim>\<open>run_experiment\<close> of
  experiment.py does) would share its reorder buffer between the directions and is not
  covered by this record.
\<close>

definition new_channel ::
  "endpoint \<Rightarrow> endpoint \<Rightarrow> link option \<Rightarrow> link option \<Rightarrow> bool \<Rightarrow> store \<Rightarrow> channel" where
  "new_channel ea eb ab_link ba_link logging st =
     \<lparr>endpoint_A = ea, endpoint_B = eb,
      ab = (case ab_link of None \<Rightarrow> new_link 0 50 10 0 0 | Some l \<Rightarrow> l),
      ba = (case ba_link of None \<Rightarrow> new_link 0 50 10 0 0 | Some l \<Rightarrow> l),
      enable_logging = logging, channel_log = [], packets = st, deliveries = []\<rparr>"

definition channel_log_event :: "string \<Rightarrow> channel \<Rightarrow> channel" where
  "channel_log_event ev w =
     (if \<not> enable_logging w then w
      else
        let lg = channel_log w @ [ev]
        in w\<lparr>channel_log := (if length lg > 10000 then drop (length lg - 10000) lg else lg)\<rparr>)"

definition link_of :: "side \<Rightarrow> channel \<Rightarrow> link" where
  "link_of direction w = (if direction = Side_A then ab w else ba w)"

definition set_link :: "side \<Rightarrow> link \<Rightarrow> channel \<Rightarrow> channel" where
  "set_link direction l w = (if direction = Side_A then w\<lparr>ab := l\<rparr> else w\<lparr>ba := l\<rparr>)"

definition endpoint_of :: "side \<Rightarrow> channel \<Rightarrow> endpoint" where
  "endpoint_of s w = (if s = Side_A then endpoint_A w else endpoint_B w)"

definition set_endpoint :: "side \<Rightarrow> endpoint \<Rightarrow> channel \<Rightarrow> channel" where
  "set_endpoint s e w = (if s = Side_A then w\<lparr>endpoint_A := e\<rparr> else w\<lparr>endpoint_B := e\<rparr>)"

definition peer :: "side \<Rightarrow> side" where
  "peer s = (if s = Side_A then Side_B else Side_A)"

definition write_cell :: "ref \<Rightarrow> packet \<Rightarrow> channel \<Rightarrow> channel" where
  "write_cell r pkt w = w\<lparr>packets := (packets w)\<lparr>cells := (cells (packets w))(r := pkt)\<rparr>\<rparr>"

text \<open>
  \<^verbatim>\<open>_send\<close>. \<^verbatim>\<open>add_checksum\<close> and \<^verbatim>\<open>maybe_corrupt\<close> assign to keys of the dictionary
  they are given: they write the cell of \<open>r\<close>. The timer started at the end is added to
  the deliveries.
\<close>

definition channel_send :: "side \<Rightarrow> ref \<Rightarrow> draws \<Rightarrow> channel \<Rightarrow> channel" where
  "channel_send direction r d w =
     (let l0 = link_of direction w;
          l1 = l0\<lparr>link_packets_sent := link_packets_sent l0 + 1\<rparr>;
          w1 = write_cell r (add_checksum (cells (packets w) r)) w;
          w2 = channel_log_event ''PACKET_SENT'' w1
      in if maybe_drop l1 (drop_draw d) then
           channel_log_event ''PACKET_DROPPED''
             (set_link direction (l1\<lparr>link_packets_lost := link_packets_lost l1 + 1\<rparr>) w2)
         else
           let mc = maybe_corrupt l1 (cells (packets w2) r) (corrupt_draw d) (corrupt_index d);
               w3 = write_cell r (fst mc) w2;
               w4 = (if pkt_corrupted (fst mc) = Some True
                     then channel_log_event ''PACKET_CORRUPTED'' w3 else w3);
               mr = maybe_reorder (snd mc) r (reorder_draw d);
               w5 = set_link direction (snd mr) w4
           in case fst mr of
                None \<Rightarrow> w5
              | Some q \<Rightarrow>
                  w5\<lparr>deliveries := deliveries w5 @
                        [(sample_delay (snd mr) (jitter_draw d), direction, q)]\<rparr>)"

text \<open>
  The packets a method of the endpoint on side \<open>s\<close> passed to \<^verbatim>\<open>self._channel_send\<close>
  (\<^verbatim>\<open>send_from_A\<close>, \<^verbatim>\<open>send_from_B\<close>). No method passes more than one, so one record
  of draws serves the call.
\<close>

fun send_all :: "side \<Rightarrow> ref list \<Rightarrow> draws \<Rightarrow> channel \<Rightarrow> channel" where
  "send_all s [] d w = w"
| "send_all s (r # rs) d w = send_all s rs d (channel_send s r d w)"

text \<open>
  The closure \<^verbatim>\<open>deliver\<close> of the delivery timer at position \<open>i\<close>, run at time \<open>now\<close>:
  the packet is verified and read as it is in the store at that moment. A packet sent in
  direction \<^verbatim>\<open>"A"\<close> goes to \<^verbatim>\<open>endpoint_B\<close>. An exception of \<^verbatim>\<open>on_receive\<close> ends the
  timer thread and leaves the endpoint as it was at the exception.
\<close>

definition deliver :: "nat \<Rightarrow> real \<Rightarrow> draws \<Rightarrow> channel \<Rightarrow> channel" where
  "deliver i now d w =
     (if i < length (deliveries w) then
        let item = deliveries w ! i;
            direction = fst (snd item);
            r = snd (snd item);
            w1 = w\<lparr>deliveries := take i (deliveries w) @ drop (Suc i) (deliveries w)\<rparr>;
            pkt = cells (packets w1) r
        in if \<not> verify_checksum pkt then channel_log_event ''CHECKSUM_ERROR'' w1
           else
             let w2 = channel_log_event ''PACKET_DELIVERED'' w1;
                 rcv = peer direction
             in case on_receive pkt now (endpoint_of rcv w2) (packets w2) of
                  Inl err \<Rightarrow> set_endpoint rcv (snd err) w2
                | Inr res \<Rightarrow>
                    send_all rcv (snd (snd res)) d
                      (set_endpoint rcv (fst res) (w2\<lparr>packets := fst (snd res)\<rparr>))
      else w)"

text \<open>The application's calls and the retransmission timer, on the wired endpoints.\<close>

definition app_send_data ::
  "side \<Rightarrow> byte list \<Rightarrow> real \<Rightarrow> draws \<Rightarrow> channel \<Rightarrow> bool \<times> channel" where
  "app_send_data s data now d w =
     (let res = send_data data now (endpoint_of s w) (packets w)
      in (fst res,
          send_all s (snd (snd (snd res))) d
            (set_endpoint s (fst (snd res)) (w\<lparr>packets := fst (snd (snd res))\<rparr>))))"

definition app_recv_data :: "side \<Rightarrow> channel \<Rightarrow> byte list option \<times> channel" where
  "app_recv_data s w =
     (let res = recv_app_data (endpoint_of s w)
      in (fst res, set_endpoint s (snd res) w))"

definition timer_fire :: "side \<Rightarrow> real \<Rightarrow> draws \<Rightarrow> channel \<Rightarrow> channel" where
  "timer_fire s now d w =
     (let res = timeout now (endpoint_of s w)
      in send_all s (snd res) d (set_endpoint s (fst res) w))"

text \<open>
  An execution is a sequence of events, each run under the lock of its endpoint: a call
  of the application, a retransmission timer that fires, a delivery timer that runs.
  Delivery timers run in any order, whatever their delays. The application sees the
  result of \<^verbatim>\<open>send_data\<close> and of \<^verbatim>\<open>recv_app_data\<close>.
\<close>

datatype event =
  Send_data side "byte list" real draws
| Recv_app_data side
| Timer_fire side real draws
| Deliver nat real draws

datatype observation =
  Accepted side "byte list"
| Rejected side "byte list"
| Received side "byte list"
| Nothing

fun step :: "channel \<Rightarrow> event \<Rightarrow> channel \<times> observation" where
  "step w (Send_data s data now d) =
     (let res = app_send_data s data now d w
      in (snd res, if fst res then Accepted s data else Rejected s data))"
| "step w (Recv_app_data s) =
     (let res = app_recv_data s w
      in (snd res, case fst res of None \<Rightarrow> Nothing | Some x \<Rightarrow> Received s x))"
| "step w (Timer_fire s now d) = (timer_fire s now d w, Nothing)"
| "step w (Deliver i now d) = (deliver i now d w, Nothing)"

fun run :: "channel \<Rightarrow> event list \<Rightarrow> channel \<times> observation list" where
  "run w [] = (w, [])"
| "run w (ev # evs) =
     (let one = step w ev; rest = run (fst one) evs
      in (fst rest, snd one # snd rest))"

fun accepted_by :: "side \<Rightarrow> observation list \<Rightarrow> byte list list" where
  "accepted_by s [] = []"
| "accepted_by s (Accepted s' x # os) = (if s' = s then x # accepted_by s os else accepted_by s os)"
| "accepted_by s (ob # os) = accepted_by s os"

fun received_by :: "side \<Rightarrow> observation list \<Rightarrow> byte list list" where
  "received_by s [] = []"
| "received_by s (Received s' x # os) = (if s' = s then x # received_by s os else received_by s os)"
| "received_by s (ob # os) = received_by s os"

inductive reachable :: "channel \<Rightarrow> channel \<Rightarrow> bool" for w0 :: channel where
  reach_start: "reachable w0 w0"
| reach_step: "reachable w0 w \<Longrightarrow> reachable w0 (fst (step w ev))"

text \<open>Two endpoints wired by a new channel, before any packet dictionary is created.\<close>

definition wired ::
  "endpoint \<Rightarrow> endpoint \<Rightarrow> link option \<Rightarrow> link option \<Rightarrow> bool \<Rightarrow> channel" where
  "wired ea eb ab_link ba_link logging = new_channel ea eb ab_link ba_link logging empty_store"

section \<open>Invariants\<close>

text \<open>
  What the sender's bookkeeping keeps true of one endpoint: \<^verbatim>\<open>base\<close> and \<^verbatim>\<open>nextseq\<close>
  are not negative, \<^verbatim>\<open>sent\<close> has an entry for every sequence number assigned so far
  and for no other, and \<^verbatim>\<open>rttvar\<close> is set when \<^verbatim>\<open>srtt\<close> is.
\<close>

definition wf_endpoint :: "endpoint \<Rightarrow> bool" where
  "wf_endpoint e \<longleftrightarrow>
     0 \<le> base e \<and> 0 \<le> nextseq e \<and> dom (sent e) = {0..<nextseq e} \<and>
     (rttvar e = None \<longrightarrow> srtt e = None)"

text \<open>The bounds of the congestion state, with an additive increase that is not negative.\<close>

definition cc_inv :: "endpoint \<Rightarrow> bool" where
  "cc_inv e \<longleftrightarrow> 1 \<le> cwnd e \<and> 2 \<le> ssthresh e \<and> 0 \<le> ai_factor e"

text \<open>
  What ties the two endpoints of a channel together. A packet that the endpoint \<open>e\<close>
  made is \<open>sender_ok\<close>: a DATA packet carries a sequence number that \<open>e\<close> has assigned, an
  ACK a value that \<open>e\<close> has acknowledged. The packets of side \<open>s\<close> that the channel or the
  endpoint may still use are those of a delivery timer of that direction, the one held by
  the link of that direction, and those in \<^verbatim>\<open>sent\<close>. The invariant: both endpoints keep
  their bookkeeping, \<^verbatim>\<open>base\<close> is at most \<^verbatim>\<open>nextseq\<close>, an endpoint has acknowledged only
  what its peer has sent, and every packet in use exists and is \<open>sender_ok\<close> for its side.
\<close>

definition sender_ok :: "endpoint \<Rightarrow> packet \<Rightarrow> bool" where
  "sender_ok e p \<longleftrightarrow>
     (pkt_type p = Some ''DATA'' \<longrightarrow> (\<forall>sq. pkt_seq p = Some sq \<longrightarrow> sq < nextseq e)) \<and>
     (pkt_type p = Some ''ACK'' \<longrightarrow> (\<forall>a. pkt_ack p = Some a \<longrightarrow> a \<le> last_acked e))"

definition refs_of :: "channel \<Rightarrow> side \<Rightarrow> ref set" where
  "refs_of w s =
     {r. \<exists>item \<in> set (deliveries w). fst (snd item) = s \<and> snd (snd item) = r} \<union>
     {r. reorder_buffer (link_of s w) = Some r} \<union>
     ran (sent (endpoint_of s w))"

definition ok_ref :: "channel \<Rightarrow> side \<Rightarrow> ref \<Rightarrow> bool" where
  "ok_ref w s r \<longleftrightarrow>
     r < next_ref (packets w) \<and> sender_ok (endpoint_of s w) (cells (packets w) r)"

definition channel_inv :: "channel \<Rightarrow> bool" where
  "channel_inv w \<longleftrightarrow>
     (\<forall>s. wf_endpoint (endpoint_of s w) \<and>
          base (endpoint_of s w) \<le> nextseq (endpoint_of s w) \<and>
          last_acked (endpoint_of (peer s) w) < nextseq (endpoint_of s w) \<and>
          (\<forall>r \<in> refs_of w s. ok_ref w s r))"

text \<open>The channel writes the payload, the checksum and the mark of a packet, never its
  header: the type, \<^verbatim>\<open>seq\<close> and \<^verbatim>\<open>ack\<close> of a packet and these decide whether it is \<open>sender_ok\<close>.\<close>

definition same_header :: "packet \<Rightarrow> packet \<Rightarrow> bool" where
  "same_header p q \<longleftrightarrow> pkt_type p = pkt_type q \<and> pkt_seq p = pkt_seq q \<and> pkt_ack p = pkt_ack q"

text \<open>The link of a direction in the middle of \<^verbatim>\<open>_send\<close>, after \<^verbatim>\<open>maybe_corrupt\<close>.\<close>

definition link_before_reorder :: "side \<Rightarrow> ref \<Rightarrow> draws \<Rightarrow> channel \<Rightarrow> link" where
  "link_before_reorder s r d w =
     snd (maybe_corrupt ((link_of s w)\<lparr>link_packets_sent := link_packets_sent (link_of s w) + 1\<rparr>)
            (add_checksum (cells (packets w) r)) (corrupt_draw d) (corrupt_index d))"


section \<open>What the building blocks of the endpoint change\<close>

lemmas endpoint_defs =
  send_data_def timeout_def accept_data_def rtt_update_def on_ack_def on_receive_def
  recv_app_data_def set_timer_def cancel_timer_def log_event_def alloc_def
  slide_window_def fast_retransmit_def data_packet_def ack_packet_def py_int_def
  new_endpoint_def default_endpoint_def empty_store_def ep_run_def

lemmas channel_defs =
  channel_send_def deliver_def app_send_data_def app_recv_data_def timer_fire_def
  write_cell_def set_link_def link_of_def endpoint_of_def set_endpoint_def peer_def
  channel_log_event_def maybe_drop_def maybe_corrupt_def maybe_reorder_def sample_delay_def
  add_checksum_def verify_checksum_def calculate_checksum_def xor_chars_def xor_bytes_def
  new_link_def new_channel_def wired_def

lemma log_event_fields [simp]:
  "name (log_event ev e) = name e"
  "nextseq (log_event ev e) = nextseq e"
  "base (log_event ev e) = base e"
  "window (log_event ev e) = window e"
  "sent (log_event ev e) = sent e"
  "sent_ts (log_event ev e) = sent_ts e"
  "app_rx (log_event ev e) = app_rx e"
  "alpha (log_event ev e) = alpha e"
  "beta (log_event ev e) = beta e"
  "rto_k (log_event ev e) = rto_k e"
  "srtt (log_event ev e) = srtt e"
  "rttvar (log_event ev e) = rttvar e"
  "rto_ms (log_event ev e) = rto_ms e"
  "timer (log_event ev e) = timer e"
  "last_acked (log_event ev e) = last_acked e"
  "dup_count (log_event ev e) = dup_count e"
  "enable_congestion_control (log_event ev e) = enable_congestion_control e"
  "ssthresh (log_event ev e) = ssthresh e"
  "cwnd (log_event ev e) = cwnd e"
  "ai_factor (log_event ev e) = ai_factor e"
  "md_factor (log_event ev e) = md_factor e"
  "packets_sent (log_event ev e) = packets_sent e"
  "packets_received (log_event ev e) = packets_received e"
  "retransmissions (log_event ev e) = retransmissions e"
  "timeouts (log_event ev e) = timeouts e"
  "fast_retransmits (log_event ev e) = fast_retransmits e"
  "rtt_samples (log_event ev e) = rtt_samples e"
  by (simp_all add: log_event_def Let_def)

lemma log_event_last [simp]: "last (log_events (log_event ev e)) = ev"
  by (simp add: log_event_def Let_def)

lemma cancel_timer_fields [simp]:
  "name (cancel_timer e) = name e"
  "nextseq (cancel_timer e) = nextseq e"
  "base (cancel_timer e) = base e"
  "window (cancel_timer e) = window e"
  "sent (cancel_timer e) = sent e"
  "sent_ts (cancel_timer e) = sent_ts e"
  "app_rx (cancel_timer e) = app_rx e"
  "alpha (cancel_timer e) = alpha e"
  "beta (cancel_timer e) = beta e"
  "rto_k (cancel_timer e) = rto_k e"
  "srtt (cancel_timer e) = srtt e"
  "rttvar (cancel_timer e) = rttvar e"
  "rto_ms (cancel_timer e) = rto_ms e"
  "last_acked (cancel_timer e) = last_acked e"
  "dup_count (cancel_timer e) = dup_count e"
  "enable_congestion_control (cancel_timer e) = enable_congestion_control e"
  "ssthresh (cancel_timer e) = ssthresh e"
  "cwnd (cancel_timer e) = cwnd e"
  "ai_factor (cancel_timer e) = ai_factor e"
  "md_factor (cancel_timer e) = md_factor e"
  "packets_sent (cancel_timer e) = packets_sent e"
  "packets_received (cancel_timer e) = packets_received e"
  "retransmissions (cancel_timer e) = retransmissions e"
  "timeouts (cancel_timer e) = timeouts e"
  "fast_retransmits (cancel_timer e) = fast_retransmits e"
  "rtt_samples (cancel_timer e) = rtt_samples e"
  by (simp_all add: cancel_timer_def split: option.split)

lemma cancel_timer_timer [simp]: "timer (cancel_timer e) = None"
  by (simp add: cancel_timer_def split: option.split)

lemma set_timer_fields [simp]:
  "name (set_timer e) = name e"
  "nextseq (set_timer e) = nextseq e"
  "base (set_timer e) = base e"
  "window (set_timer e) = window e"
  "sent (set_timer e) = sent e"
  "sent_ts (set_timer e) = sent_ts e"
  "app_rx (set_timer e) = app_rx e"
  "alpha (set_timer e) = alpha e"
  "beta (set_timer e) = beta e"
  "rto_k (set_timer e) = rto_k e"
  "srtt (set_timer e) = srtt e"
  "rttvar (set_timer e) = rttvar e"
  "rto_ms (set_timer e) = rto_ms e"
  "last_acked (set_timer e) = last_acked e"
  "dup_count (set_timer e) = dup_count e"
  "enable_congestion_control (set_timer e) = enable_congestion_control e"
  "ssthresh (set_timer e) = ssthresh e"
  "cwnd (set_timer e) = cwnd e"
  "ai_factor (set_timer e) = ai_factor e"
  "md_factor (set_timer e) = md_factor e"
  "packets_sent (set_timer e) = packets_sent e"
  "packets_received (set_timer e) = packets_received e"
  "retransmissions (set_timer e) = retransmissions e"
  "timeouts (set_timer e) = timeouts e"
  "fast_retransmits (set_timer e) = fast_retransmits e"
  "rtt_samples (set_timer e) = rtt_samples e"
  by (simp_all add: set_timer_def Let_def)

lemma set_timer_timer [simp]: "timer (set_timer e) = Some (real_of_int (rto_ms e) / 1000)"
  by (simp add: set_timer_def Let_def)

lemma set_timer_last [simp]: "last (log_events (set_timer e)) = ''TIMER_STARTED''"
  by (simp add: set_timer_def Let_def)

lemma slide_window_fields [simp]:
  "name (slide_window a e) = name e"
  "nextseq (slide_window a e) = nextseq e"
  "window (slide_window a e) = window e"
  "sent (slide_window a e) = sent e"
  "sent_ts (slide_window a e) = sent_ts e"
  "app_rx (slide_window a e) = app_rx e"
  "alpha (slide_window a e) = alpha e"
  "beta (slide_window a e) = beta e"
  "rto_k (slide_window a e) = rto_k e"
  "srtt (slide_window a e) = srtt e"
  "rttvar (slide_window a e) = rttvar e"
  "rto_ms (slide_window a e) = rto_ms e"
  "last_acked (slide_window a e) = last_acked e"
  "enable_congestion_control (slide_window a e) = enable_congestion_control e"
  "ssthresh (slide_window a e) = ssthresh e"
  "cwnd (slide_window a e) = cwnd e"
  "ai_factor (slide_window a e) = ai_factor e"
  "md_factor (slide_window a e) = md_factor e"
  "packets_sent (slide_window a e) = packets_sent e"
  "packets_received (slide_window a e) = packets_received e"
  "retransmissions (slide_window a e) = retransmissions e"
  "timeouts (slide_window a e) = timeouts e"
  "fast_retransmits (slide_window a e) = fast_retransmits e"
  "rtt_samples (slide_window a e) = rtt_samples e"
  by (simp_all add: slide_window_def Let_def)

lemma slide_window_base [simp]:
  "base (slide_window a e) = a + 1"
  "dup_count (slide_window a e) = 0"
  by (simp_all add: slide_window_def Let_def)

lemma fast_retransmit_fields [simp]:
  "name (fast_retransmit now e) = name e"
  "nextseq (fast_retransmit now e) = nextseq e"
  "base (fast_retransmit now e) = base e"
  "window (fast_retransmit now e) = window e"
  "sent (fast_retransmit now e) = sent e"
  "app_rx (fast_retransmit now e) = app_rx e"
  "alpha (fast_retransmit now e) = alpha e"
  "beta (fast_retransmit now e) = beta e"
  "rto_k (fast_retransmit now e) = rto_k e"
  "srtt (fast_retransmit now e) = srtt e"
  "rttvar (fast_retransmit now e) = rttvar e"
  "rto_ms (fast_retransmit now e) = rto_ms e"
  "last_acked (fast_retransmit now e) = last_acked e"
  "dup_count (fast_retransmit now e) = dup_count e"
  "enable_congestion_control (fast_retransmit now e) = enable_congestion_control e"
  "ai_factor (fast_retransmit now e) = ai_factor e"
  "md_factor (fast_retransmit now e) = md_factor e"
  "packets_sent (fast_retransmit now e) = packets_sent e"
  "packets_received (fast_retransmit now e) = packets_received e"
  "timeouts (fast_retransmit now e) = timeouts e"
  "rtt_samples (fast_retransmit now e) = rtt_samples e"
  by (simp_all add: fast_retransmit_def Let_def)

lemma max_py_int_floor: "max 2 (py_int x) = max 2 \<lfloor>x\<rfloor>"
proof (cases "0 \<le> x")
  case True
  then show ?thesis by (simp add: py_int_def)
next
  case False
  then have "\<lceil>x\<rceil> \<le> 0" and "\<lfloor>x\<rfloor> \<le> 0"
    by (simp_all add: ceiling_le_zero floor_le_zero le_floor_iff)
  with False show ?thesis by (simp add: py_int_def max_def)
qed

lemma fast_retransmit_changes [simp]:
  "sent_ts (fast_retransmit now e) = (sent_ts e)(base e \<mapsto> now)"
  "retransmissions (fast_retransmit now e) = retransmissions e + 1"
  "fast_retransmits (fast_retransmit now e) = fast_retransmits e + 1"
  "timer (fast_retransmit now e) = Some (real_of_int (rto_ms e) / 1000)"
  "last (log_events (fast_retransmit now e)) = ''TIMER_STARTED''"
  by (simp_all add: fast_retransmit_def Let_def)

lemma fast_retransmit_congestion:
  "enable_congestion_control e \<Longrightarrow>
     ssthresh (fast_retransmit now e) = max 2 \<lfloor>cwnd e * md_factor e\<rfloor>"
  "enable_congestion_control e \<Longrightarrow>
     cwnd (fast_retransmit now e) = real_of_int (max 2 \<lfloor>cwnd e * md_factor e\<rfloor>)"
  "\<not> enable_congestion_control e \<Longrightarrow> ssthresh (fast_retransmit now e) = ssthresh e"
  "\<not> enable_congestion_control e \<Longrightarrow> cwnd (fast_retransmit now e) = cwnd e"
  by (simp_all add: fast_retransmit_def Let_def max_py_int_floor)

section \<open>The checksum detects a changed payload byte\<close>

lemma xor_bytes_start: "xor_bytes c bs = c XOR xor_bytes 0 bs"
proof (induction bs arbitrary: c)
  case Nil
  show ?case by (simp add: xor_bytes_def)
next
  case (Cons b bs)
  have "xor_bytes c (b # bs) = xor_bytes (c XOR uint b) bs"
    by (simp add: xor_bytes_def)
  also have "\<dots> = (c XOR uint b) XOR xor_bytes 0 bs"
    by (rule Cons.IH)
  also have "\<dots> = c XOR (uint b XOR xor_bytes 0 bs)"
    by (simp add: xor.assoc)
  also have "uint b XOR xor_bytes 0 bs = xor_bytes (uint b) bs"
    by (rule Cons.IH [symmetric])
  also have "xor_bytes (uint b) bs = xor_bytes 0 (b # bs)"
    by (simp add: xor_bytes_def)
  finally show ?case .
qed

lemma xor_bytes_update:
  "i < length bs \<Longrightarrow> xor_bytes c (bs[i := b]) = xor_bytes c bs XOR uint (bs ! i XOR b)"
proof (induction bs arbitrary: c i)
  case Nil
  then show ?case by simp
next
  case (Cons a bs)
  show ?case
  proof (cases i)
    case 0
    have "xor_bytes c ((a # bs)[0 := b]) = xor_bytes (c XOR uint b) bs"
      by (simp add: xor_bytes_def)
    also have "\<dots> = (c XOR uint b) XOR xor_bytes 0 bs"
      by (rule xor_bytes_start)
    also have "\<dots> = ((c XOR uint a) XOR xor_bytes 0 bs) XOR uint (a XOR b)"
      by (simp add: uint_xor xor.assoc xor.commute xor.left_commute)
    also have "(c XOR uint a) XOR xor_bytes 0 bs = xor_bytes (c XOR uint a) bs"
      by (rule xor_bytes_start [symmetric])
    also have "\<dots> = xor_bytes c (a # bs)"
      by (simp add: xor_bytes_def)
    finally show ?thesis using 0 by simp
  next
    case (Suc j)
    with Cons.prems have j: "j < length bs" by simp
    have "xor_bytes c ((a # bs)[Suc j := b]) = xor_bytes (c XOR uint a) (bs[j := b])"
      by (simp add: xor_bytes_def)
    also have "\<dots> = xor_bytes (c XOR uint a) bs XOR uint (bs ! j XOR b)"
      by (rule Cons.IH [OF j])
    also have "xor_bytes (c XOR uint a) bs = xor_bytes c (a # bs)"
      by (simp add: xor_bytes_def)
    finally show ?thesis using Suc by simp
  qed
qed

lemma low_bits_differ:
  fixes x :: int and w :: byte
  assumes "w \<noteq> 0"
  shows "(x XOR uint w) AND 65535 \<noteq> x AND 65535"
proof
  assume eq: "(x XOR uint w) AND 65535 = x AND 65535"
  from assms obtain n where n: "bit w n"
    by (auto simp: bit_eq_iff)
  then have n8: "n < 8"
    by (auto dest: bit_imp_le_length)
  have m: "(65535::int) = mask 16" by (simp add: mask_eq_exp_minus_1)
  from eq have "bit ((x XOR uint w) AND mask 16) n = bit (x AND mask 16) n"
    by (simp add: m)
  with n n8 show False
    by (simp add: bit_and_iff bit_xor_iff bit_mask_iff bit_uint_iff)
qed


lemma calculate_checksum_ignores:
  "calculate_checksum (pkt\<lparr>pkt_checksum := c\<rparr>) = calculate_checksum pkt"
  "calculate_checksum (pkt\<lparr>pkt_corrupted := f\<rparr>) = calculate_checksum pkt"
  by (simp_all add: calculate_checksum_def)

lemma verify_add_checksum: "verify_checksum (add_checksum pkt)"
  by (simp add: verify_checksum_def add_checksum_def calculate_checksum_ignores)

lemma calculate_checksum_byte_changed:
  assumes "pkt_payload pkt = Some bs" and "i < length bs" and "b \<noteq> bs ! i"
  shows "calculate_checksum (pkt\<lparr>pkt_payload := Some (bs[i := b])\<rparr>) \<noteq> calculate_checksum pkt"
proof -
  define c where "c =
    (let c1 = (case pkt_type pkt of None \<Rightarrow> 0 | Some t \<Rightarrow> xor_chars 0 t);
         c2 = (case pkt_seq pkt of None \<Rightarrow> c1 | Some s \<Rightarrow> c1 XOR s)
     in (case pkt_ack pkt of None \<Rightarrow> c2 | Some a \<Rightarrow> c2 XOR a))"
  have old: "calculate_checksum pkt = xor_bytes c bs AND 65535"
    using assms(1) by (simp add: calculate_checksum_def c_def Let_def)
  have "calculate_checksum (pkt\<lparr>pkt_payload := Some (bs[i := b])\<rparr>)
      = xor_bytes c (bs[i := b]) AND 65535"
    by (simp add: calculate_checksum_def c_def Let_def)
  also have "\<dots> = (xor_bytes c bs XOR uint (bs ! i XOR b)) AND 65535"
    using assms(2) by (simp add: xor_bytes_update)
  finally have new: "calculate_checksum (pkt\<lparr>pkt_payload := Some (bs[i := b])\<rparr>)
      = (xor_bytes c bs XOR uint (bs ! i XOR b)) AND 65535" .
  have "bs ! i XOR b \<noteq> 0"
  proof
    assume z: "bs ! i XOR b = 0"
    have "b = (bs ! i XOR bs ! i) XOR b" by simp
    also have "\<dots> = bs ! i XOR (bs ! i XOR b)" by (simp only: xor.assoc)
    also have "\<dots> = bs ! i" by (simp add: z)
    finally show False using assms(3) by simp
  qed
  then show ?thesis
    unfolding old new by (rule low_bits_differ)
qed

lemma verify_fails_after_byte_change:
  assumes "pkt_payload pkt = Some bs" and "i < length bs" and "b \<noteq> bs ! i"
  shows "\<not> verify_checksum ((add_checksum pkt)\<lparr>pkt_payload := Some (bs[i := b]), pkt_corrupted := f\<rparr>)"
    and "\<not> verify_checksum ((add_checksum pkt)\<lparr>pkt_payload := Some (bs[i := b])\<rparr>)"
  using calculate_checksum_byte_changed [OF assms]
  by (simp_all add: verify_checksum_def add_checksum_def calculate_checksum_def)

lemma maybe_corrupt_cases:
  "fst (maybe_corrupt l pkt r i) = pkt \<or>
   (\<exists>bs. pkt_payload pkt = Some bs \<and> bs \<noteq> [] \<and> r < corruption_prob l \<and>
      fst (maybe_corrupt l pkt r i) =
        pkt\<lparr>pkt_payload := Some (bs[i := bs ! i + 1]), pkt_corrupted := Some True\<rparr>)"
  by (simp add: maybe_corrupt_def split: option.split)

text \<open>
  The checksum as a function. A packet stamped by \<^verbatim>\<open>add_checksum\<close> passes
  \<^verbatim>\<open>verify_checksum\<close>. When one byte of the payload of a stamped packet is replaced by a
  different byte, the packet fails \<^verbatim>\<open>verify_checksum\<close>. Hence the contents that
  \<^verbatim>\<open>maybe_corrupt\<close> returns when it has changed a stamped packet (it puts
  \<^verbatim>\<open>(b + 1) % 256\<close> in the place of the byte \<open>b\<close> at the index drawn within the
  payload) fail \<^verbatim>\<open>verify_checksum\<close>, as long as the checksum is the one stamped before.
\<close>

theorem checksum_roundtrip_and_detection:
  "verify_checksum (add_checksum p) \<and>
   (\<forall>bs i b. pkt_payload p = Some bs \<and> i < length bs \<and> b \<noteq> bs ! i \<longrightarrow>
      \<not> verify_checksum ((add_checksum p)\<lparr>pkt_payload := Some (bs[i := b])\<rparr>)) \<and>
   (\<forall>l r i bs. pkt_payload p = Some bs \<and> i < length bs \<and>
        fst (maybe_corrupt l (add_checksum p) r i) \<noteq> add_checksum p \<longrightarrow>
      \<not> verify_checksum (fst (maybe_corrupt l (add_checksum p) r i)))"
proof (intro conjI allI impI)
  show "verify_checksum (add_checksum p)"
    by (rule verify_add_checksum)
next
  fix bs i b
  assume "pkt_payload p = Some bs \<and> i < length bs \<and> b \<noteq> bs ! i"
  then show "\<not> verify_checksum ((add_checksum p)\<lparr>pkt_payload := Some (bs[i := b])\<rparr>)"
    by (simp add: verify_fails_after_byte_change(2))
next
  fix l r i bs
  assume a: "pkt_payload p = Some bs \<and> i < length bs \<and>
    fst (maybe_corrupt l (add_checksum p) r i) \<noteq> add_checksum p"
  then have pl: "pkt_payload p = Some bs" and i: "i < length bs" by simp_all
  have "pkt_payload (add_checksum p) = Some bs"
    using pl by (simp add: add_checksum_def)
  with a maybe_corrupt_cases [of l "add_checksum p" r i]
  have eq: "fst (maybe_corrupt l (add_checksum p) r i) =
      (add_checksum p)\<lparr>pkt_payload := Some (bs[i := bs ! i + 1]), pkt_corrupted := Some True\<rparr>"
    by auto
  have "bs ! i + 1 \<noteq> bs ! i" by simp
  then show "\<not> verify_checksum (fst (maybe_corrupt l (add_checksum p) r i))"
    unfolding eq using pl i by (rule verify_fails_after_byte_change(1) [rotated 2])
qed


theorem checksum_roundtrip_and_detection_witness:
  "verify_checksum (add_checksum
      \<lparr>pkt_type = Some ''DATA'', pkt_seq = Some 0, pkt_ack = None,
       pkt_payload = Some [104, 105], pkt_checksum = None, pkt_corrupted = None\<rparr>) \<and>
   \<not> verify_checksum ((add_checksum
      \<lparr>pkt_type = Some ''DATA'', pkt_seq = Some 0, pkt_ack = None,
       pkt_payload = Some [104, 105], pkt_checksum = None, pkt_corrupted = None\<rparr>)
        \<lparr>pkt_payload := Some [104, 33]\<rparr>) \<and>
   \<not> verify_checksum (fst (maybe_corrupt (new_link 0 50 10 0 1) (add_checksum
      \<lparr>pkt_type = Some ''DATA'', pkt_seq = Some 0, pkt_ack = None,
       pkt_payload = Some [104, 105], pkt_checksum = None, pkt_corrupted = None\<rparr>) 0 1))"
proof -
  let ?p = "\<lparr>pkt_type = Some ''DATA'', pkt_seq = Some 0, pkt_ack = None,
       pkt_payload = Some [104, 105 :: byte], pkt_checksum = None, pkt_corrupted = None\<rparr>"
  note t = checksum_roundtrip_and_detection [of ?p]
  from t have a: "verify_checksum (add_checksum ?p)"
    by (rule conjunct1)
  from t have "pkt_payload ?p = Some [104, 105] \<and> 1 < length [104, 105 :: byte] \<and>
      (33 :: byte) \<noteq> [104, 105] ! 1 \<longrightarrow>
      \<not> verify_checksum ((add_checksum ?p)\<lparr>pkt_payload := Some ([104, 105][1 := 33])\<rparr>)"
    by blast
  then have b: "\<not> verify_checksum ((add_checksum ?p)\<lparr>pkt_payload := Some [104, 33]\<rparr>)"
    by simp
  from t have "pkt_payload ?p = Some [104, 105] \<and> 1 < length [104, 105 :: byte] \<and>
      fst (maybe_corrupt (new_link 0 50 10 0 1) (add_checksum ?p) 0 1) \<noteq> add_checksum ?p \<longrightarrow>
      \<not> verify_checksum (fst (maybe_corrupt (new_link 0 50 10 0 1) (add_checksum ?p) 0 1))"
    by blast
  moreover have "fst (maybe_corrupt (new_link 0 50 10 0 1) (add_checksum ?p) 0 1) \<noteq> add_checksum ?p"
    by (simp add: maybe_corrupt_def new_link_def add_checksum_def)
  ultimately have c: "\<not> verify_checksum (fst (maybe_corrupt (new_link 0 50 10 0 1) (add_checksum ?p) 0 1))"
    by simp
  from a b c show ?thesis by blast
qed

section \<open>The reorder stage of a link\<close>

lemma maybe_reorder_prob [simp]: "reorder_prob (snd (maybe_reorder l p r)) = reorder_prob l"
  by (simp add: maybe_reorder_def split: option.split)

lemma reorder_calls_off:
  "reorder_prob l \<le> 0 \<Longrightarrow> reorder_calls l cs = (map (\<lambda>c. Some (fst c)) cs, l)"
  by (induction cs) (simp_all add: maybe_reorder_def Let_def)

lemma returned_map_Some [simp]: "returned (map (\<lambda>c. Some (f c)) cs) = map f cs"
  by (induction cs) simp_all

lemma maybe_reorder_keeps:
  assumes "0 < reorder_prob l" and "reorder_buffer l = None \<or> r < reorder_prob l"
  shows "returned [fst (maybe_reorder l p r)] @ held (snd (maybe_reorder l p r)) = held l @ [p]"
  using assms by (auto simp: maybe_reorder_def held_def split: option.split)

lemma reorder_calls_keeps:
  assumes "0 < reorder_prob l" and "release_draws_succeed l cs"
  shows "returned (fst (reorder_calls l cs)) @ held (snd (reorder_calls l cs)) = held l @ map fst cs"
  using assms
proof (induction cs arbitrary: l)
  case Nil
  show ?case by simp
next
  case (Cons c cs)
  let ?res = "maybe_reorder l (fst c) (snd c)"
  from Cons.prems have ok: "reorder_buffer l = None \<or> snd c < reorder_prob l"
    and rest: "release_draws_succeed (snd ?res) cs"
    by simp_all
  have pos: "0 < reorder_prob (snd ?res)"
    using Cons.prems(1) by simp
  have one: "returned [fst ?res] @ held (snd ?res) = held l @ [fst c]"
    using Cons.prems(1) ok by (rule maybe_reorder_keeps)
  have ih: "returned (fst (reorder_calls (snd ?res) cs)) @ held (snd (reorder_calls (snd ?res) cs))
      = held (snd ?res) @ map fst cs"
    using pos rest by (rule Cons.IH)
  have "returned (fst (reorder_calls l (c # cs))) @ held (snd (reorder_calls l (c # cs)))
      = returned [fst ?res] @ (returned (fst (reorder_calls (snd ?res) cs))
          @ held (snd (reorder_calls (snd ?res) cs)))"
    by (cases "fst ?res") (simp_all add: Let_def)
  also have "\<dots> = (returned [fst ?res] @ held (snd ?res)) @ map fst cs"
    by (simp only: ih append_assoc)
  also have "\<dots> = held l @ map fst (c # cs)"
    by (simp add: one)
  finally show ?case .
qed

lemma all_draws_succeed:
  assumes "\<forall>c\<in>set cs. snd c < reorder_prob l"
  shows "release_draws_succeed l cs"
  using assms by (induction cs arbitrary: l) simp_all

lemma reorder_calls_holds_last:
  assumes "0 < reorder_prob l" and "\<forall>c\<in>set cs. snd c < reorder_prob l" and "cs \<noteq> []"
  shows "reorder_buffer (snd (reorder_calls l cs)) = Some (fst (last cs))"
  using assms
proof (induction cs arbitrary: l)
  case Nil
  then show ?case by simp
next
  case (Cons c cs)
  let ?res = "maybe_reorder l (fst c) (snd c)"
  from Cons.prems have c: "snd c < reorder_prob l" by simp
  with Cons.prems(1) have buf: "reorder_buffer (snd ?res) = Some (fst c)"
    by (auto simp: maybe_reorder_def split: option.split)
  show ?case
  proof (cases "cs = []")
    case True
    with buf show ?thesis by (simp add: Let_def)
  next
    case False
    have "reorder_buffer (snd (reorder_calls (snd ?res) cs)) = Some (fst (last cs))"
      using Cons.prems False by (intro Cons.IH) simp_all
    with False show ?thesis by (simp add: Let_def)
  qed
qed

lemma reorder_calls_count:
  "length (returned (fst (reorder_calls l cs))) + length (held (snd (reorder_calls l cs)))
     \<le> length (held l) + length cs"
proof (induction cs arbitrary: l)
  case Nil
  show ?case by simp
next
  case (Cons c cs)
  let ?res = "maybe_reorder l (fst c) (snd c)"
  have one: "length (returned [fst ?res]) + length (held (snd ?res)) \<le> length (held l) + 1"
    by (auto simp: maybe_reorder_def held_def split: option.split)
  have "length (returned (fst (reorder_calls l (c # cs))))
      = length (returned [fst ?res]) + length (returned (fst (reorder_calls (snd ?res) cs)))"
    by (cases "fst ?res") (simp_all add: Let_def)
  moreover have "snd (reorder_calls l (c # cs)) = snd (reorder_calls (snd ?res) cs)"
    by (simp add: Let_def)
  moreover note Cons.IH [of "snd ?res"] one
  ultimately show ?case by simp
qed

text \<open>
  The second branch of \<^verbatim>\<open>maybe_reorder\<close>, when the draw of its conditional expression
  fails: the packet held is returned and the buffer is emptied, so the packet of the call
  is neither returned nor held.
\<close>

lemma maybe_reorder_drops:
  assumes "0 < reorder_prob l" and "reorder_buffer l = Some q" and "reorder_prob l \<le> r"
  shows "maybe_reorder l p r = (Some q, l\<lparr>reorder_buffer := None\<rparr>)"
  using assms by (simp add: maybe_reorder_def)

text \<open>
  A sequence of calls with such a draw returns and holds fewer packets than were
  submitted.
\<close>

lemma reorder_calls_lose:
  assumes "0 < reorder_prob l" and "\<not> release_draws_succeed l cs"
  shows "length (returned (fst (reorder_calls l cs))) + length (held (snd (reorder_calls l cs)))
     < length (held l) + length cs"
  using assms
proof (induction cs arbitrary: l)
  case Nil
  then show ?case by simp
next
  case (Cons c cs)
  let ?res = "maybe_reorder l (fst c) (snd c)"
  have split: "length (returned (fst (reorder_calls l (c # cs))))
        + length (held (snd (reorder_calls l (c # cs))))
      = length (returned [fst ?res]) + (length (returned (fst (reorder_calls (snd ?res) cs)))
        + length (held (snd (reorder_calls (snd ?res) cs))))"
    by (cases "fst ?res") (simp_all add: Let_def)
  have pos: "0 < reorder_prob (snd ?res)"
    using Cons.prems(1) by simp
  show ?case
  proof (cases "reorder_buffer l = None \<or> snd c < reorder_prob l")
    case True
    with Cons.prems(2) have rest: "\<not> release_draws_succeed (snd ?res) cs"
      by simp
    have one: "length (returned [fst ?res]) + length (held (snd ?res)) = length (held l) + 1"
      using maybe_reorder_keeps [OF Cons.prems(1) True, of "fst c"]
      by (metis length_append length_append_singleton Suc_eq_plus1)
    from Cons.IH [OF pos rest] split one show ?thesis
      by simp
  next
    case False
    then obtain q where q: "reorder_buffer l = Some q" and r: "reorder_prob l \<le> snd c"
      by auto
    have "?res = (Some q, l\<lparr>reorder_buffer := None\<rparr>)"
      using Cons.prems(1) q r by (rule maybe_reorder_drops)
    then have one: "length (returned [fst ?res]) + length (held (snd ?res)) = length (held l)"
      using q by (simp add: held_def)
    from reorder_calls_count [of "snd ?res" cs] split one show ?thesis
      by simp
  qed
qed

text \<open>
  With \<^verbatim>\<open>reorder_prob\<close> at most 0 every call returns its own packet and the link does
  not change. After a sequence of calls in which no draw fails while a packet is held, the
  packets returned followed by the packet held are the packets submitted, in the order of
  submission: the reorder stage swaps no packets, it delays them by one call. With
  \<^verbatim>\<open>reorder_prob = 1\<close> (every draw of \<^verbatim>\<open>random.random()\<close> is below 1) the packets
  returned are the submitted ones without the last, and the last one is held.
\<close>

lemma reorder_calls_delay_line:
  assumes "reorder_buffer l = None"
  shows "(reorder_prob l \<le> 0 \<longrightarrow>
            returned (fst (reorder_calls l cs)) = map fst cs \<and> snd (reorder_calls l cs) = l) \<and>
         (release_draws_succeed l cs \<longrightarrow>
            returned (fst (reorder_calls l cs)) @ held (snd (reorder_calls l cs)) = map fst cs) \<and>
         (reorder_prob l = 1 \<and> (\<forall>c\<in>set cs. 0 \<le> snd c \<and> snd c < 1) \<and> cs \<noteq> [] \<longrightarrow>
            returned (fst (reorder_calls l cs)) = butlast (map fst cs) \<and>
            reorder_buffer (snd (reorder_calls l cs)) = Some (last (map fst cs)))"
proof (intro conjI impI)
  assume "reorder_prob l \<le> 0"
  then show "returned (fst (reorder_calls l cs)) = map fst cs" "snd (reorder_calls l cs) = l"
    by (simp_all add: reorder_calls_off)
next
  assume ok: "release_draws_succeed l cs"
  show "returned (fst (reorder_calls l cs)) @ held (snd (reorder_calls l cs)) = map fst cs"
  proof (cases "0 < reorder_prob l")
    case True
    from reorder_calls_keeps [OF True ok] assms show ?thesis
      by (simp add: held_def)
  next
    case False
    then have "reorder_prob l \<le> 0" by simp
    then show ?thesis using assms by (simp add: reorder_calls_off held_def)
  qed
next
  assume a: "reorder_prob l = 1 \<and> (\<forall>c\<in>set cs. 0 \<le> snd c \<and> snd c < 1) \<and> cs \<noteq> []"
  then have pos: "0 < reorder_prob l" and all: "\<forall>c\<in>set cs. snd c < reorder_prob l"
    and ne: "cs \<noteq> []"
    by simp_all
  have buf: "reorder_buffer (snd (reorder_calls l cs)) = Some (fst (last cs))"
    using pos all ne by (rule reorder_calls_holds_last)
  have "returned (fst (reorder_calls l cs)) @ held (snd (reorder_calls l cs)) = held l @ map fst cs"
    using pos all_draws_succeed [OF all] by (rule reorder_calls_keeps)
  with buf assms have "returned (fst (reorder_calls l cs)) @ [fst (last cs)] = map fst cs"
    by (simp add: held_def)
  then have "butlast (returned (fst (reorder_calls l cs)) @ [fst (last cs)]) = butlast (map fst cs)"
    by simp
  then show "returned (fst (reorder_calls l cs)) = butlast (map fst cs)"
    by simp
  from buf ne show "reorder_buffer (snd (reorder_calls l cs)) = Some (last (map fst cs))"
    by (simp add: last_map)
qed

text \<open>
  Claim C3 does not hold of the code: \<^verbatim>\<open>maybe_reorder\<close> loses a packet. On a new link
  with \<^verbatim>\<open>reorder_prob = 0.5\<close>, the call for packet 1 draws 0.3 and holds the packet. The
  call for packet 2 finds packet 1 held and returns it; its draw 0.7 is not below 0.5, and
  the conditional expression \<^verbatim>\<open>pkt if random.random() < self.reorder_prob else None\<close>
  stores \<^verbatim>\<open>None\<close>: packet 2 is not returned and is not in the buffer. A third call, for
  packet 3 with draw 0.9, returns packet 3; packet 2 is returned by no call.
\<close>

theorem maybe_reorder_loses_packet:
  "fst (reorder_calls (new_link 0 50 10 (1 / 2) 0) [(1, 3 / 10), (2, 7 / 10)]) = [None, Some 1] \<and>
   reorder_buffer (snd (reorder_calls (new_link 0 50 10 (1 / 2) 0) [(1, 3 / 10), (2, 7 / 10)]))
     = None \<and>
   fst (reorder_calls (new_link 0 50 10 (1 / 2) 0) [(1, 3 / 10), (2, 7 / 10), (3, 9 / 10)])
     = [None, Some 1, Some 3] \<and>
   reorder_buffer (snd (reorder_calls (new_link 0 50 10 (1 / 2) 0)
       [(1, 3 / 10), (2, 7 / 10), (3, 9 / 10)])) = None"
  by (simp add: new_link_def maybe_reorder_def Let_def)

section \<open>\<^verbatim>\<open>send_data\<close>\<close>

lemma send_data_accepts:
  "fst (send_data data now e st) =
     (real_of_int (nextseq e) < real_of_int (base e) +
        (if enable_congestion_control e then cwnd e else real_of_int (window e)))"
  by (simp add: send_data_def Let_def)

lemma send_data_accepted:
  assumes "fst (send_data data now e st)"
  shows "snd (snd (snd (send_data data now e st))) = [next_ref st]"
    and "cells (fst (snd (snd (send_data data now e st)))) (next_ref st) =
           data_packet (nextseq e) data"
    and "sent (fst (snd (send_data data now e st))) = (sent e)(nextseq e \<mapsto> next_ref st)"
    and "sent_ts (fst (snd (send_data data now e st))) = (sent_ts e)(nextseq e \<mapsto> now)"
    and "packets_sent (fst (snd (send_data data now e st))) = packets_sent e + 1"
    and "nextseq (fst (snd (send_data data now e st))) = nextseq e + 1"
    and "base (fst (snd (send_data data now e st))) = base e"
  using assms by (simp_all add: send_data_def alloc_def Let_def split: if_splits)

lemma send_data_timer:
  assumes "fst (send_data data now e st)"
  shows "if nextseq e = base e
       then timer (fst (snd (send_data data now e st))) = Some (real_of_int (rto_ms e) / 1000) \<and>
            last (log_events (fst (snd (send_data data now e st)))) = ''TIMER_STARTED''
       else timer (fst (snd (send_data data now e st))) = timer e \<and>
            last (log_events (fst (snd (send_data data now e st)))) = ''PACKET_SENT''"
  using assms by (simp add: send_data_def alloc_def Let_def split: if_splits)

lemma send_data_rejected:
  assumes "\<not> fst (send_data data now e st)"
  shows "send_data data now e st = (False, e, st, [])"
  using assms by (simp add: send_data_def Let_def split: if_splits)

text \<open>
  Claim C10. When \<^verbatim>\<open>send_data\<close> returns false, the endpoint and the store of packets
  are what they were and nothing was passed to the channel: no packet is created, and
  every field of the endpoint keeps its value.
\<close>

theorem send_data_rejected_unchanged:
  assumes "fst (send_data data now e st) = False"
  shows "send_data data now e st = (False, e, st, [])"
  using assms by (simp add: send_data_rejected)

theorem send_data_rejected_unchanged_witness:
  "fst (send_data [2] 1 (fst (ep_run (default_endpoint ''A'', empty_store) [Call_send_data [1] 0]))
     (snd (ep_run (default_endpoint ''A'', empty_store) [Call_send_data [1] 0]))) = False \<and>
   send_data [2] 1 (fst (ep_run (default_endpoint ''A'', empty_store) [Call_send_data [1] 0]))
     (snd (ep_run (default_endpoint ''A'', empty_store) [Call_send_data [1] 0])) =
   (False, fst (ep_run (default_endpoint ''A'', empty_store) [Call_send_data [1] 0]),
    snd (ep_run (default_endpoint ''A'', empty_store) [Call_send_data [1] 0]), [])"
proof -
  let ?s = "ep_run (default_endpoint ''A'', empty_store) [Call_send_data [1] 0]"
  have full: "fst (send_data [2] 1 (fst ?s) (snd ?s)) = False"
    by (simp add: endpoint_defs cong: let_weak_cong)
  from full send_data_rejected_unchanged [OF full] show ?thesis
    by (rule conjI)
qed

text \<open>
  Claim C5, as the code has it. \<^verbatim>\<open>send_data\<close> accepts the payload if and only if
  \<^verbatim>\<open>nextseq < base + cwnd\<close> with congestion control enabled, the window being
  \<^verbatim>\<open>cwnd\<close> itself and not its integer part, and \<^verbatim>\<open>nextseq < base + window\<close> without. On
  acceptance the new packet is DATA with \<^verbatim>\<open>seq = nextseq\<close> and the payload, it is
  recorded in \<^verbatim>\<open>sent\<close> and \<^verbatim>\<open>sent_ts[seq] = now\<close>, it is the one packet passed to the
  channel, \<^verbatim>\<open>packets_sent\<close> grows by one, the timer is set (to the current RTO) exactly
  when \<^verbatim>\<open>seq = base\<close>, \<^verbatim>\<open>nextseq\<close> grows by one and the result is true. Otherwise the
  result is false and nothing changes.
\<close>

theorem send_data_window:
  "fst (send_data data now e st) =
     (real_of_int (nextseq e) < real_of_int (base e) +
        (if enable_congestion_control e then cwnd e else real_of_int (window e))) \<and>
   (fst (send_data data now e st) \<longrightarrow>
      snd (snd (snd (send_data data now e st))) = [next_ref st] \<and>
      cells (fst (snd (snd (send_data data now e st)))) (next_ref st) =
        data_packet (nextseq e) data \<and>
      sent (fst (snd (send_data data now e st))) = (sent e)(nextseq e \<mapsto> next_ref st) \<and>
      sent_ts (fst (snd (send_data data now e st))) = (sent_ts e)(nextseq e \<mapsto> now) \<and>
      packets_sent (fst (snd (send_data data now e st))) = packets_sent e + 1 \<and>
      (if nextseq e = base e
       then timer (fst (snd (send_data data now e st))) = Some (real_of_int (rto_ms e) / 1000) \<and>
            last (log_events (fst (snd (send_data data now e st)))) = ''TIMER_STARTED''
       else timer (fst (snd (send_data data now e st))) = timer e \<and>
            last (log_events (fst (snd (send_data data now e st)))) = ''PACKET_SENT'') \<and>
      nextseq (fst (snd (send_data data now e st))) = nextseq e + 1 \<and>
      base (fst (snd (send_data data now e st))) = base e) \<and>
   (\<not> fst (send_data data now e st) \<longrightarrow> send_data data now e st = (False, e, st, []))"
proof (intro conjI impI)
  show "fst (send_data data now e st) =
     (real_of_int (nextseq e) < real_of_int (base e) +
        (if enable_congestion_control e then cwnd e else real_of_int (window e)))"
    by (rule send_data_accepts)
next
  assume acc: "fst (send_data data now e st)"
  show "snd (snd (snd (send_data data now e st))) = [next_ref st]"
    and "cells (fst (snd (snd (send_data data now e st)))) (next_ref st) =
           data_packet (nextseq e) data"
    and "sent (fst (snd (send_data data now e st))) = (sent e)(nextseq e \<mapsto> next_ref st)"
    and "sent_ts (fst (snd (send_data data now e st))) = (sent_ts e)(nextseq e \<mapsto> now)"
    and "packets_sent (fst (snd (send_data data now e st))) = packets_sent e + 1"
    and "nextseq (fst (snd (send_data data now e st))) = nextseq e + 1"
    and "base (fst (snd (send_data data now e st))) = base e"
    by (rule send_data_accepted [OF acc])+
  show "if nextseq e = base e
       then timer (fst (snd (send_data data now e st))) = Some (real_of_int (rto_ms e) / 1000) \<and>
            last (log_events (fst (snd (send_data data now e st)))) = ''TIMER_STARTED''
       else timer (fst (snd (send_data data now e st))) = timer e \<and>
            last (log_events (fst (snd (send_data data now e st)))) = ''PACKET_SENT''"
    by (rule send_data_timer [OF acc])
next
  assume "\<not> fst (send_data data now e st)"
  then show "send_data data now e st = (False, e, st, [])"
    by (rule send_data_rejected)
qed

theorem send_data_window_witness:
  "fst (send_data [1] 0 (default_endpoint ''A'') empty_store) \<and>
   snd (snd (snd (send_data [1] 0 (default_endpoint ''A'') empty_store))) = [0] \<and>
   cells (fst (snd (snd (send_data [1] 0 (default_endpoint ''A'') empty_store)))) 0 =
     data_packet 0 [1] \<and>
   nextseq (fst (snd (send_data [1] 0 (default_endpoint ''A'') empty_store))) = 1 \<and>
   timer (fst (snd (send_data [1] 0 (default_endpoint ''A'') empty_store))) = Some (1 / 5) \<and>
   \<not> fst (send_data [2] 1
        (fst (ep_run (default_endpoint ''A'', empty_store) [Call_send_data [1] 0]))
        (snd (ep_run (default_endpoint ''A'', empty_store) [Call_send_data [1] 0]))) \<and>
   fst (snd (send_data [2] 1
        (fst (ep_run (default_endpoint ''A'', empty_store) [Call_send_data [1] 0]))
        (snd (ep_run (default_endpoint ''A'', empty_store) [Call_send_data [1] 0])))) =
     fst (ep_run (default_endpoint ''A'', empty_store) [Call_send_data [1] 0])"
proof -
  let ?e = "default_endpoint ''A''"
  let ?s = "ep_run (default_endpoint ''A'', empty_store) [Call_send_data [1] 0]"
  have open_window: "real_of_int (nextseq ?e) < real_of_int (base ?e) +
      (if enable_congestion_control ?e then cwnd ?e else real_of_int (window ?e))"
    by (simp add: default_endpoint_def new_endpoint_def)
  have fresh: "nextseq ?e = 0" "base ?e = 0" "rto_ms ?e = 200" "next_ref empty_store = 0"
    by (simp_all add: default_endpoint_def new_endpoint_def empty_store_def)
  have full: "\<not> (real_of_int (nextseq (fst ?s)) < real_of_int (base (fst ?s)) +
      (if enable_congestion_control (fst ?s) then cwnd (fst ?s) else real_of_int (window (fst ?s))))"
    by (simp add: endpoint_defs cong: let_weak_cong)
  from send_data_window [of "[1]" 0 ?e empty_store] open_window
  have 1: "fst (send_data [1] 0 ?e empty_store) \<and>
     snd (snd (snd (send_data [1] 0 ?e empty_store))) = [0] \<and>
     cells (fst (snd (snd (send_data [1] 0 ?e empty_store)))) 0 = data_packet 0 [1] \<and>
     nextseq (fst (snd (send_data [1] 0 ?e empty_store))) = 1 \<and>
     timer (fst (snd (send_data [1] 0 ?e empty_store))) = Some (1 / 5)"
    by (simp add: fresh)
  note t = send_data_window [of "[2]" 1 "fst ?s" "snd ?s"]
  from t full have nf: "\<not> fst (send_data [2] 1 (fst ?s) (snd ?s))"
    by blast
  with t have "send_data [2] 1 (fst ?s) (snd ?s) = (False, fst ?s, snd ?s, [])"
    by blast
  then have "fst (snd (send_data [2] 1 (fst ?s) (snd ?s))) = fst ?s"
    by simp
  with nf have 2: "\<not> fst (send_data [2] 1 (fst ?s) (snd ?s)) \<and>
     fst (snd (send_data [2] 1 (fst ?s) (snd ?s))) = fst ?s"
    by (rule conjI)
  from 1 2 show ?thesis by blast
qed

text \<open>
  Claim C5 as stated fails: the window is not the integer part of \<^verbatim>\<open>cwnd\<close>. After a
  timeout (\<^verbatim>\<open>ssthresh = 2\<close>, \<^verbatim>\<open>cwnd = 1\<close>) and two DATA packets received in order
  (\<^verbatim>\<open>cwnd = 2\<close>, then \<^verbatim>\<open>2 + 1/2\<close>), the endpoint accepts a third payload in flight:
  \<^verbatim>\<open>nextseq = 2\<close>, \<^verbatim>\<open>base = 0\<close>, and 2 is below 2.5 but not below \<^verbatim>\<open>floor(2.5) = 2\<close>.
\<close>

theorem send_data_fractional_window:
  "enable_congestion_control (fst (ep_run (default_endpoint ''A'', empty_store)
       [Call_send_data [1] 0, Call_timeout 1, Call_on_receive (data_packet 0 [7]) 2,
        Call_on_receive (data_packet 1 [8]) 3, Call_send_data [2] 4])) \<and>
   cwnd (fst (ep_run (default_endpoint ''A'', empty_store)
       [Call_send_data [1] 0, Call_timeout 1, Call_on_receive (data_packet 0 [7]) 2,
        Call_on_receive (data_packet 1 [8]) 3, Call_send_data [2] 4])) = 5 / 2 \<and>
   nextseq (fst (ep_run (default_endpoint ''A'', empty_store)
       [Call_send_data [1] 0, Call_timeout 1, Call_on_receive (data_packet 0 [7]) 2,
        Call_on_receive (data_packet 1 [8]) 3, Call_send_data [2] 4])) = 2 \<and>
   base (fst (ep_run (default_endpoint ''A'', empty_store)
       [Call_send_data [1] 0, Call_timeout 1, Call_on_receive (data_packet 0 [7]) 2,
        Call_on_receive (data_packet 1 [8]) 3, Call_send_data [2] 4])) = 0 \<and>
   \<not> (2 < 0 + \<lfloor>5 / 2 :: real\<rfloor>) \<and>
   fst (send_data [3] 5
     (fst (ep_run (default_endpoint ''A'', empty_store)
       [Call_send_data [1] 0, Call_timeout 1, Call_on_receive (data_packet 0 [7]) 2,
        Call_on_receive (data_packet 1 [8]) 3, Call_send_data [2] 4]))
     (snd (ep_run (default_endpoint ''A'', empty_store)
       [Call_send_data [1] 0, Call_timeout 1, Call_on_receive (data_packet 0 [7]) 2,
        Call_on_receive (data_packet 1 [8]) 3, Call_send_data [2] 4])))"
  by (simp add: endpoint_defs cong: let_weak_cong)

section \<open>The retransmission timer\<close>

lemma timeout_counts: "timeouts (fst (timeout now e)) = timeouts e + 1"
  by (simp add: timeout_def Let_def split: option.split)

lemma timeout_nothing_sent:
  assumes "sent e (base e) = None"
  shows "timeout now e = (log_event ''TIMEOUT'' (e\<lparr>timeouts := timeouts e + 1\<rparr>), [])"
  using assms by (simp add: timeout_def Let_def)

lemma timeout_resend:
  assumes "sent e (base e) = Some r"
  shows "snd (timeout now e) = [r]"
    and "sent_ts (fst (timeout now e)) = (sent_ts e)(base e \<mapsto> now)"
    and "retransmissions (fst (timeout now e)) = retransmissions e + 1"
    and "rto_ms (fst (timeout now e)) = min 60000 (rto_ms e * 2)"
    and "timer (fst (timeout now e)) = Some (real_of_int (min 60000 (rto_ms e * 2)) / 1000)"
    and "last (log_events (fst (timeout now e))) = ''TIMER_STARTED''"
  using assms by (simp_all add: timeout_def Let_def)

lemma timeout_congestion:
  assumes "sent e (base e) = Some r"
  shows "if enable_congestion_control e
       then ssthresh (fst (timeout now e)) = max 2 \<lfloor>cwnd e * md_factor e\<rfloor> \<and>
            cwnd (fst (timeout now e)) = 1
       else ssthresh (fst (timeout now e)) = ssthresh e \<and>
            cwnd (fst (timeout now e)) = cwnd e"
  using assms by (simp add: timeout_def Let_def max_py_int_floor)

text \<open>
  Claim C8, as the code has it. When the retransmission timer fires, the timeout counter
  grows by one. If \<^verbatim>\<open>sent[base]\<close> does not exist, nothing else changes but the log, and
  the RTO keeps its value. If \<^verbatim>\<open>sent[base]\<close> exists, the endpoint resends it, sets
  \<^verbatim>\<open>sent_ts[base]\<close> to now, counts a retransmission, with congestion control enabled
  sets \<^verbatim>\<open>ssthresh\<close> to \<^verbatim>\<open>max(2, floor(cwnd * md_factor))\<close> and \<^verbatim>\<open>cwnd\<close> to 1 (and
  leaves both without), sets the RTO to twice its value, at most 60000 ms, and sets the
  timer to the new RTO.
\<close>

theorem timeout_retransmits:
  "timeouts (fst (timeout now e)) = timeouts e + 1 \<and>
   (sent e (base e) = None \<longrightarrow>
      timeout now e = (log_event ''TIMEOUT'' (e\<lparr>timeouts := timeouts e + 1\<rparr>), []) \<and>
      rto_ms (fst (timeout now e)) = rto_ms e) \<and>
   (\<forall>r. sent e (base e) = Some r \<longrightarrow>
      snd (timeout now e) = [r] \<and>
      sent_ts (fst (timeout now e)) = (sent_ts e)(base e \<mapsto> now) \<and>
      retransmissions (fst (timeout now e)) = retransmissions e + 1 \<and>
      (if enable_congestion_control e
       then ssthresh (fst (timeout now e)) = max 2 \<lfloor>cwnd e * md_factor e\<rfloor> \<and>
            cwnd (fst (timeout now e)) = 1
       else ssthresh (fst (timeout now e)) = ssthresh e \<and>
            cwnd (fst (timeout now e)) = cwnd e) \<and>
      rto_ms (fst (timeout now e)) = min 60000 (rto_ms e * 2) \<and>
      timer (fst (timeout now e)) = Some (real_of_int (min 60000 (rto_ms e * 2)) / 1000) \<and>
      last (log_events (fst (timeout now e))) = ''TIMER_STARTED'')"
proof (intro conjI allI impI)
  show "timeouts (fst (timeout now e)) = timeouts e + 1"
    by (rule timeout_counts)
next
  assume n: "sent e (base e) = None"
  then show "timeout now e = (log_event ''TIMEOUT'' (e\<lparr>timeouts := timeouts e + 1\<rparr>), [])"
    by (rule timeout_nothing_sent)
  then show "rto_ms (fst (timeout now e)) = rto_ms e"
    by simp
next
  fix r
  assume s: "sent e (base e) = Some r"
  show "snd (timeout now e) = [r]"
    and "sent_ts (fst (timeout now e)) = (sent_ts e)(base e \<mapsto> now)"
    and "retransmissions (fst (timeout now e)) = retransmissions e + 1"
    and "rto_ms (fst (timeout now e)) = min 60000 (rto_ms e * 2)"
    and "timer (fst (timeout now e)) = Some (real_of_int (min 60000 (rto_ms e * 2)) / 1000)"
    and "last (log_events (fst (timeout now e))) = ''TIMER_STARTED''"
    by (rule timeout_resend [OF s])+
  show "if enable_congestion_control e
       then ssthresh (fst (timeout now e)) = max 2 \<lfloor>cwnd e * md_factor e\<rfloor> \<and>
            cwnd (fst (timeout now e)) = 1
       else ssthresh (fst (timeout now e)) = ssthresh e \<and>
            cwnd (fst (timeout now e)) = cwnd e"
    by (rule timeout_congestion [OF s])
qed

theorem timeout_retransmits_witness:
  "sent (fst (ep_run (default_endpoint ''A'', empty_store) [Call_send_data [1] 0]))
     (base (fst (ep_run (default_endpoint ''A'', empty_store) [Call_send_data [1] 0]))) = Some 0 \<and>
   snd (timeout 1 (fst (ep_run (default_endpoint ''A'', empty_store) [Call_send_data [1] 0]))) = [0] \<and>
   ssthresh (fst (timeout 1 (fst (ep_run (default_endpoint ''A'', empty_store)
     [Call_send_data [1] 0])))) = 2 \<and>
   cwnd (fst (timeout 1 (fst (ep_run (default_endpoint ''A'', empty_store)
     [Call_send_data [1] 0])))) = 1 \<and>
   rto_ms (fst (timeout 1 (fst (ep_run (default_endpoint ''A'', empty_store)
     [Call_send_data [1] 0])))) = 400 \<and>
   sent (default_endpoint ''A'') (base (default_endpoint ''A'')) = None \<and>
   rto_ms (fst (timeout 1 (default_endpoint ''A''))) = 200"
proof -
  let ?e = "fst (ep_run (default_endpoint ''A'', empty_store) [Call_send_data [1] 0])"
  have s: "sent ?e (base ?e) = Some 0"
    by (simp add: endpoint_defs cong: let_weak_cong)
  have v: "enable_congestion_control ?e" "cwnd ?e = 1" "md_factor ?e = 1 / 2" "rto_ms ?e = 200"
    by (simp_all add: endpoint_defs cong: let_weak_cong)
  have n: "sent (default_endpoint ''A'') (base (default_endpoint ''A'')) = None"
    and r: "rto_ms (default_endpoint ''A'') = 200"
    by (simp_all add: default_endpoint_def new_endpoint_def)
  from timeout_retransmits [of 1 ?e] s
  have 1: "snd (timeout 1 ?e) = [0] \<and> ssthresh (fst (timeout 1 ?e)) = 2 \<and>
      cwnd (fst (timeout 1 ?e)) = 1 \<and> rto_ms (fst (timeout 1 ?e)) = 400"
    by (simp add: v)
  from timeout_retransmits [of 1 "default_endpoint ''A''"] n r
  have 2: "rto_ms (fst (timeout 1 (default_endpoint ''A''))) = 200"
    by simp
  from s 1 n 2 show ?thesis by blast
qed

text \<open>
  Claim C8 as stated fails twice. With congestion control disabled, a timeout with
  \<^verbatim>\<open>sent[base]\<close> present leaves \<^verbatim>\<open>ssthresh\<close> at 65535, where the claim sets it to
  \<^verbatim>\<open>max(2, floor(1 * 0.5)) = 2\<close>. And a timer whose thread already waits for the lock
  when the last ACK cancels it runs \<^verbatim>\<open>_timeout\<close> with \<^verbatim>\<open>base = nextseq\<close>: the
  timeout is counted, \<^verbatim>\<open>sent[base]\<close> does not exist, and the RTO stays 375 ms.
\<close>

theorem timeout_without_decrease_or_backoff:
  "sent (fst (ep_run (new_endpoint ''A'' 200 (1 / 8) (1 / 4) 4 False 65535 1 1 (1 / 2), empty_store)
       [Call_send_data [1] 0])) 0 = Some 0 \<and>
   base (fst (ep_run (new_endpoint ''A'' 200 (1 / 8) (1 / 4) 4 False 65535 1 1 (1 / 2), empty_store)
       [Call_send_data [1] 0])) = 0 \<and>
   ssthresh (fst (ep_run (new_endpoint ''A'' 200 (1 / 8) (1 / 4) 4 False 65535 1 1 (1 / 2), empty_store)
       [Call_send_data [1] 0, Call_timeout 1])) = 65535 \<and>
   rto_ms (fst (ep_run (default_endpoint ''A'', empty_store)
       [Call_send_data [1] 0, Call_on_receive (ack_packet 0) (1 / 8)])) = 375 \<and>
   timeouts (fst (ep_run (default_endpoint ''A'', empty_store)
       [Call_send_data [1] 0, Call_on_receive (ack_packet 0) (1 / 8), Call_timeout 1])) = 1 \<and>
   rto_ms (fst (ep_run (default_endpoint ''A'', empty_store)
       [Call_send_data [1] 0, Call_on_receive (ack_packet 0) (1 / 8), Call_timeout 1])) = 375"
  by (simp add: endpoint_defs cong: let_weak_cong)

section \<open>Acknowledgements\<close>

lemma on_receive_ack:
  assumes "pkt_type pkt = Some ''ACK''" and "pkt_ack pkt = Some a"
  shows "on_receive pkt now e st =
     (case on_ack a now e of Inl err \<Rightarrow> Inl err | Inr res \<Rightarrow> Inr (fst res, st, snd res))"
  using assms by (simp add: on_receive_def)

lemma on_ack_other:
  assumes "a < base e" and "a \<noteq> last_acked e"
  shows "on_ack a now e = Inr (e, [])"
  using assms by (simp add: on_ack_def)

lemma on_ack_duplicate:
  assumes "a < base e" and "a = last_acked e"
    and "\<not> (3 \<le> dup_count e + 1 \<and> sent e (base e) \<noteq> None)"
  shows "on_ack a now e =
     Inr (log_event ''DUPLICATE_ACK'' (e\<lparr>dup_count := dup_count e + 1\<rparr>), [])"
  using assms by (auto simp: on_ack_def Let_def split: option.split)

lemma on_ack_fast_retransmit:
  assumes "a < base e" and "a = last_acked e"
    and "3 \<le> dup_count e + 1" and "sent e (base e) = Some r"
  shows "on_ack a now e =
     Inr (fast_retransmit now (log_event ''DUPLICATE_ACK'' (e\<lparr>dup_count := dup_count e + 1\<rparr>)),
          [r])"
  using assms by (simp add: on_ack_def Let_def)

text \<open>
  Claim C4, as the code has it. For an ACK with value \<open>a\<close> below \<^verbatim>\<open>base\<close>: the counter
  \<^verbatim>\<open>dup_count\<close> grows by one if and only if \<open>a\<close> equals \<^verbatim>\<open>last_acked\<close>, the value the
  endpoint compares duplicates with. A fast retransmit is performed on every such
  duplicate at which the new \<^verbatim>\<open>dup_count\<close> is at least 3 and \<^verbatim>\<open>sent[base]\<close> exists, so
  again on each later duplicate: \<^verbatim>\<open>sent[base]\<close> is resent, \<^verbatim>\<open>sent_ts[base]\<close> is now,
  the retransmission counter and the fast retransmit counter grow by one, the timer is
  set again, and with congestion control enabled \<^verbatim>\<open>ssthresh\<close> becomes
  \<^verbatim>\<open>max(2, floor(cwnd * md_factor))\<close> and \<^verbatim>\<open>cwnd\<close> becomes \<^verbatim>\<open>ssthresh\<close>. Otherwise none
  of these changes. The fast retransmit does not reset \<^verbatim>\<open>dup_count\<close>.
\<close>

theorem duplicate_ack_fast_retransmit:
  assumes "pkt_type pkt = Some ''ACK''" and "pkt_ack pkt = Some a" and "a < base e"
  shows "\<exists>e' out. on_receive pkt now e st = Inr (e', st, out) \<and>
     base e' = base e \<and> nextseq e' = nextseq e \<and> sent e' = sent e \<and>
     dup_count e' = (if a = last_acked e then dup_count e + 1 else dup_count e) \<and>
     (if a = last_acked e \<and> 3 \<le> dup_count e + 1 \<and> sent e (base e) \<noteq> None
      then out = [the (sent e (base e))] \<and>
           sent_ts e' = (sent_ts e)(base e \<mapsto> now) \<and>
           retransmissions e' = retransmissions e + 1 \<and>
           fast_retransmits e' = fast_retransmits e + 1 \<and>
           (if enable_congestion_control e
            then ssthresh e' = max 2 \<lfloor>cwnd e * md_factor e\<rfloor> \<and>
                 cwnd e' = real_of_int (max 2 \<lfloor>cwnd e * md_factor e\<rfloor>)
            else ssthresh e' = ssthresh e \<and> cwnd e' = cwnd e) \<and>
           timer e' = Some (real_of_int (rto_ms e) / 1000) \<and>
           last (log_events e') = ''TIMER_STARTED''
      else out = [] \<and> sent_ts e' = sent_ts e \<and>
           retransmissions e' = retransmissions e \<and>
           fast_retransmits e' = fast_retransmits e \<and>
           ssthresh e' = ssthresh e \<and> cwnd e' = cwnd e \<and> timer e' = timer e)"
proof (cases "a = last_acked e")
  case False
  with assms show ?thesis
    by (simp add: on_receive_ack on_ack_other)
next
  case True
  let ?d = "log_event ''DUPLICATE_ACK'' (e\<lparr>dup_count := dup_count e + 1\<rparr>)"
  show ?thesis
  proof (cases "3 \<le> dup_count e + 1 \<and> sent e (base e) \<noteq> None")
    case False
    with assms(3) True have "on_ack a now e = Inr (?d, [])"
      by (intro on_ack_duplicate)
    with assms True False show ?thesis
      by (simp add: on_receive_ack)
  next
    case fr: True
    then obtain r where r: "sent e (base e) = Some r" by auto
    from assms(3) True fr r have "on_ack a now e = Inr (fast_retransmit now ?d, [r])"
      by (intro on_ack_fast_retransmit) simp_all
    with assms(1,2) have res: "on_receive pkt now e st = Inr (fast_retransmit now ?d, st, [r])"
      by (simp add: on_receive_ack)
    show ?thesis
    proof (cases "enable_congestion_control e")
      case cc: True
      then have "enable_congestion_control ?d" by simp
      from fast_retransmit_congestion(1,2) [OF this, of now] True fr r cc show ?thesis
        unfolding res by simp
    next
      case cc: False
      then have "\<not> enable_congestion_control ?d" by simp
      from fast_retransmit_congestion(3,4) [OF this, of now] True fr r cc show ?thesis
        unfolding res by simp
    qed
  qed
qed

text \<open>
  A sender without congestion control (window 8) has five packets in flight and gets the
  ACK \<open>-1\<close> of a receiver that missed packet 0: the third such ACK starts the fast
  retransmit.
\<close>

theorem duplicate_ack_fast_retransmit_witness:
  "pkt_type (ack_packet (- 1)) = Some ''ACK'' \<and> pkt_ack (ack_packet (- 1)) = Some (- 1) \<and>
   - 1 < base (fst (ep_run (new_endpoint ''A'' 200 (1 / 8) (1 / 4) 4 False 65535 1 1 (1 / 2),
       empty_store)
      [Call_send_data [0] 0, Call_send_data [1] 0, Call_send_data [2] 0, Call_send_data [3] 0,
       Call_send_data [4] 0, Call_on_receive (ack_packet (- 1)) 1,
       Call_on_receive (ack_packet (- 1)) 1])) \<and>
   (\<exists>e' out. on_receive (ack_packet (- 1)) 2
        (fst (ep_run (new_endpoint ''A'' 200 (1 / 8) (1 / 4) 4 False 65535 1 1 (1 / 2),
           empty_store)
          [Call_send_data [0] 0, Call_send_data [1] 0, Call_send_data [2] 0,
           Call_send_data [3] 0, Call_send_data [4] 0, Call_on_receive (ack_packet (- 1)) 1,
           Call_on_receive (ack_packet (- 1)) 1])) empty_store = Inr (e', empty_store, out) \<and>
      dup_count e' = 3 \<and> out = [0] \<and> fast_retransmits e' = 1 \<and> retransmissions e' = 1 \<and>
      ssthresh e' = 65535 \<and> timer e' = Some (1 / 5))"
proof -
  let ?e = "fst (ep_run (new_endpoint ''A'' 200 (1 / 8) (1 / 4) 4 False 65535 1 1 (1 / 2),
       empty_store)
      [Call_send_data [0] 0, Call_send_data [1] 0, Call_send_data [2] 0, Call_send_data [3] 0,
       Call_send_data [4] 0, Call_on_receive (ack_packet (- 1)) 1,
       Call_on_receive (ack_packet (- 1)) 1])"
  have h1: "pkt_type (ack_packet (- 1)) = Some ''ACK''"
    and h2: "pkt_ack (ack_packet (- 1)) = Some (- 1)"
    by (simp_all add: ack_packet_def)
  have v: "base ?e = 0" "last_acked ?e = - 1" "dup_count ?e = 2" "sent ?e 0 = Some 0"
    "fast_retransmits ?e = 0" "retransmissions ?e = 0" "ssthresh ?e = 65535"
    "\<not> enable_congestion_control ?e" "rto_ms ?e = 200"
    by (simp_all add: endpoint_defs cong: let_weak_cong)
  have h3: "- 1 < base ?e"
    by (simp add: v)
  from duplicate_ack_fast_retransmit [OF h1 h2 h3, of 2 empty_store]
  obtain e' out where res: "on_receive (ack_packet (- 1)) 2 ?e empty_store = Inr (e', empty_store, out)"
    and d: "dup_count e' = (if - 1 = last_acked ?e then dup_count ?e + 1 else dup_count ?e)"
    and f: "if - 1 = last_acked ?e \<and> 3 \<le> dup_count ?e + 1 \<and> sent ?e (base ?e) \<noteq> None
      then out = [the (sent ?e (base ?e))] \<and>
           sent_ts e' = (sent_ts ?e)(base ?e \<mapsto> 2) \<and>
           retransmissions e' = retransmissions ?e + 1 \<and>
           fast_retransmits e' = fast_retransmits ?e + 1 \<and>
           (if enable_congestion_control ?e
            then ssthresh e' = max 2 \<lfloor>cwnd ?e * md_factor ?e\<rfloor> \<and>
                 cwnd e' = real_of_int (max 2 \<lfloor>cwnd ?e * md_factor ?e\<rfloor>)
            else ssthresh e' = ssthresh ?e \<and> cwnd e' = cwnd ?e) \<and>
           timer e' = Some (real_of_int (rto_ms ?e) / 1000) \<and>
           last (log_events e') = ''TIMER_STARTED''
      else out = [] \<and> sent_ts e' = sent_ts ?e \<and>
           retransmissions e' = retransmissions ?e \<and>
           fast_retransmits e' = fast_retransmits ?e \<and>
           ssthresh e' = ssthresh ?e \<and> cwnd e' = cwnd ?e \<and> timer e' = timer ?e"
    by blast
  from d have d3: "dup_count e' = 3"
    by (simp add: v)
  from f have "out = [0] \<and> fast_retransmits e' = 1 \<and> retransmissions e' = 1 \<and>
      ssthresh e' = 65535 \<and> timer e' = Some (1 / 5)"
    by (simp add: v)
  with res d3
  have "\<exists>e' out. on_receive (ack_packet (- 1)) 2 ?e empty_store = Inr (e', empty_store, out) \<and>
      dup_count e' = 3 \<and> out = [0] \<and> fast_retransmits e' = 1 \<and> retransmissions e' = 1 \<and>
      ssthresh e' = 65535 \<and> timer e' = Some (1 / 5)"
    by blast
  with h1 h2 h3 show ?thesis by blast
qed

text \<open>
  Claim C4 as stated fails: the fast retransmit is performed again on a later duplicate.
  The fourth ACK \<open>-1\<close> finds \<^verbatim>\<open>dup_count = 3\<close> and one fast retransmit done; it makes
  \<^verbatim>\<open>dup_count = 4\<close>, resends \<^verbatim>\<open>sent[base]\<close> and counts a second fast retransmit.
  This sender has congestion control disabled, and the fast retransmit at the third
  duplicate has left \<^verbatim>\<open>ssthresh\<close> and \<^verbatim>\<open>cwnd\<close> as they were.
\<close>

theorem fast_retransmit_repeats:
  "ssthresh (fst (ep_run (new_endpoint ''A'' 200 (1 / 8) (1 / 4) 4 False 65535 1 1 (1 / 2),
       empty_store)
      [Call_send_data [0] 0, Call_send_data [1] 0, Call_send_data [2] 0, Call_send_data [3] 0,
       Call_send_data [4] 0, Call_on_receive (ack_packet (- 1)) 1,
       Call_on_receive (ack_packet (- 1)) 1, Call_on_receive (ack_packet (- 1)) 2])) = 65535 \<and>
   cwnd (fst (ep_run (new_endpoint ''A'' 200 (1 / 8) (1 / 4) 4 False 65535 1 1 (1 / 2),
       empty_store)
      [Call_send_data [0] 0, Call_send_data [1] 0, Call_send_data [2] 0, Call_send_data [3] 0,
       Call_send_data [4] 0, Call_on_receive (ack_packet (- 1)) 1,
       Call_on_receive (ack_packet (- 1)) 1, Call_on_receive (ack_packet (- 1)) 2])) = 1 \<and>
   dup_count (fst (ep_run (new_endpoint ''A'' 200 (1 / 8) (1 / 4) 4 False 65535 1 1 (1 / 2),
       empty_store)
      [Call_send_data [0] 0, Call_send_data [1] 0, Call_send_data [2] 0, Call_send_data [3] 0,
       Call_send_data [4] 0, Call_on_receive (ack_packet (- 1)) 1,
       Call_on_receive (ack_packet (- 1)) 1, Call_on_receive (ack_packet (- 1)) 2])) = 3 \<and>
   fast_retransmits (fst (ep_run (new_endpoint ''A'' 200 (1 / 8) (1 / 4) 4 False 65535 1 1 (1 / 2),
       empty_store)
      [Call_send_data [0] 0, Call_send_data [1] 0, Call_send_data [2] 0, Call_send_data [3] 0,
       Call_send_data [4] 0, Call_on_receive (ack_packet (- 1)) 1,
       Call_on_receive (ack_packet (- 1)) 1, Call_on_receive (ack_packet (- 1)) 2])) = 1 \<and>
   on_ack (- 1) 3 (fst (ep_run (new_endpoint ''A'' 200 (1 / 8) (1 / 4) 4 False 65535 1 1 (1 / 2),
       empty_store)
      [Call_send_data [0] 0, Call_send_data [1] 0, Call_send_data [2] 0, Call_send_data [3] 0,
       Call_send_data [4] 0, Call_on_receive (ack_packet (- 1)) 1,
       Call_on_receive (ack_packet (- 1)) 1, Call_on_receive (ack_packet (- 1)) 2])) =
     Inr (fst (ep_run (new_endpoint ''A'' 200 (1 / 8) (1 / 4) 4 False 65535 1 1 (1 / 2),
       empty_store)
      [Call_send_data [0] 0, Call_send_data [1] 0, Call_send_data [2] 0, Call_send_data [3] 0,
       Call_send_data [4] 0, Call_on_receive (ack_packet (- 1)) 1,
       Call_on_receive (ack_packet (- 1)) 1, Call_on_receive (ack_packet (- 1)) 2,
       Call_on_receive (ack_packet (- 1)) 3]), [0]) \<and>
   dup_count (fst (ep_run (new_endpoint ''A'' 200 (1 / 8) (1 / 4) 4 False 65535 1 1 (1 / 2),
       empty_store)
      [Call_send_data [0] 0, Call_send_data [1] 0, Call_send_data [2] 0, Call_send_data [3] 0,
       Call_send_data [4] 0, Call_on_receive (ack_packet (- 1)) 1,
       Call_on_receive (ack_packet (- 1)) 1, Call_on_receive (ack_packet (- 1)) 2,
       Call_on_receive (ack_packet (- 1)) 3])) = 4 \<and>
   fast_retransmits (fst (ep_run (new_endpoint ''A'' 200 (1 / 8) (1 / 4) 4 False 65535 1 1 (1 / 2),
       empty_store)
      [Call_send_data [0] 0, Call_send_data [1] 0, Call_send_data [2] 0, Call_send_data [3] 0,
       Call_send_data [4] 0, Call_on_receive (ack_packet (- 1)) 1,
       Call_on_receive (ack_packet (- 1)) 1, Call_on_receive (ack_packet (- 1)) 2,
       Call_on_receive (ack_packet (- 1)) 3])) = 2 \<and>
   retransmissions (fst (ep_run (new_endpoint ''A'' 200 (1 / 8) (1 / 4) 4 False 65535 1 1 (1 / 2),
       empty_store)
      [Call_send_data [0] 0, Call_send_data [1] 0, Call_send_data [2] 0, Call_send_data [3] 0,
       Call_send_data [4] 0, Call_on_receive (ack_packet (- 1)) 1,
       Call_on_receive (ack_packet (- 1)) 1, Call_on_receive (ack_packet (- 1)) 2,
       Call_on_receive (ack_packet (- 1)) 3])) = 2"
  by (simp add: endpoint_defs cong: let_weak_cong)

section \<open>Invariants of one endpoint\<close>

text \<open>
  A property that the log does not touch and that each part of \<^verbatim>\<open>on_receive\<close> keeps
  is kept by \<^verbatim>\<open>on_receive\<close>, whether it returns or raises; and a property kept by every
  method is kept by every call.
\<close>

lemma on_receive_preserves:
  assumes lg: "\<And>ev x. P x \<Longrightarrow> P (log_event ev x)"
    and e: "P e"
    and data: "\<And>pl. pkt_type pkt = Some ''DATA'' \<Longrightarrow> pkt_seq pkt = Some (last_acked e + 1) \<Longrightarrow>
       (case accept_data pl e of Inl err \<Rightarrow> P (snd err) | Inr e' \<Rightarrow> P e')"
    and ack: "\<And>a. pkt_type pkt = Some ''ACK'' \<Longrightarrow> pkt_ack pkt = Some a \<Longrightarrow>
       (case on_ack a now e of Inl err \<Rightarrow> P (snd err) | Inr res \<Rightarrow> P (fst res))"
  shows "case on_receive pkt now e st of Inl err \<Rightarrow> P (snd err) | Inr res \<Rightarrow> P (fst res)"
proof (cases "pkt_type pkt")
  case None
  with e show ?thesis by (simp add: on_receive_def)
next
  case (Some t)
  show ?thesis
  proof (cases "t = ''DATA''")
    case True
    with Some have ty: "pkt_type pkt = Some ''DATA''" by simp
    show ?thesis
    proof (cases "pkt_seq pkt")
      case None
      with ty e show ?thesis by (simp add: on_receive_def)
    next
      case sq: (Some sq)
      show ?thesis
      proof (cases "sq = last_acked e + 1")
        case False
        with ty sq lg [OF e] show ?thesis by (simp add: on_receive_def Let_def)
      next
        case eq: True
        with sq have nxt: "pkt_seq pkt = Some (last_acked e + 1)" by simp
        show ?thesis
        proof (cases "pkt_payload pkt")
          case None
          with ty nxt e show ?thesis by (simp add: on_receive_def)
        next
          case pl: (Some pl)
          note d = data [OF ty nxt, of pl]
          show ?thesis
          proof (cases "accept_data pl e")
            case (Inl err)
            with d ty nxt pl show ?thesis
              by (simp add: on_receive_def)
          next
            case (Inr e')
            with d have "P e'" by simp
            then have "P (log_event ''ACK_SENT'' e')" by (rule lg)
            with Inr ty nxt pl show ?thesis
              by (simp add: on_receive_def Let_def)
          qed
        qed
      qed
    qed
  next
    case False
    show ?thesis
    proof (cases "t = ''ACK''")
      case isack: True
      with Some have ty: "pkt_type pkt = Some ''ACK''" by simp
      show ?thesis
      proof (cases "pkt_ack pkt")
        case None
        with ty e show ?thesis by (simp add: on_receive_def)
      next
        case a: (Some a)
        from ack [OF ty a] ty a show ?thesis
          by (cases "on_ack a now e") (simp_all add: on_receive_def)
      qed
    next
      case other: False
      with Some False e show ?thesis by (simp add: on_receive_def)
    qed
  qed
qed

lemma ep_step_preserves:
  assumes "\<And>data now. P (fst (snd (send_data data now e st)))"
    and "\<And>pkt now. case on_receive pkt now e st of
            Inl err \<Rightarrow> P (snd err) | Inr res \<Rightarrow> P (fst res)"
    and "\<And>now. P (fst (timeout now e))"
    and "P (snd (recv_app_data e))"
  shows "P (ep_step e st c)"
proof (cases c)
  case (Call_send_data data now)
  with assms(1) show ?thesis by simp
next
  case (Call_on_receive pkt now)
  with assms(2) [of pkt now] show ?thesis
    by (cases "on_receive pkt now e st") simp_all
next
  case (Call_timeout now)
  with assms(3) show ?thesis by simp
next
  case Call_recv_app_data
  with assms(4) show ?thesis by simp
qed

lemma ep_step_store_fst: "fst (ep_step_store (e, st) c) = ep_step e st c"
  by (cases c) (simp_all add: Let_def split: sum.split)

lemma ep_run_reachable:
  assumes "ep_reachable e0 e"
  shows "ep_reachable e0 (fst (ep_run (e, st) cs))"
  using assms
proof (induction cs arbitrary: e st)
  case Nil
  then show ?case by (simp add: ep_run_def)
next
  case (Cons c cs)
  obtain e' st' where s: "ep_step_store (e, st) c = (e', st')"
    by (cases "ep_step_store (e, st) c")
  with ep_step_store_fst [of e st c] have "e' = ep_step e st c" by simp
  with Cons.prems have "ep_reachable e0 e'" by (simp add: ep_next)
  then have "ep_reachable e0 (fst (ep_run (e', st') cs))" by (rule Cons.IH)
  with s show ?case by (simp add: ep_run_def)
qed

subsection \<open>The sender's bookkeeping\<close>

lemma wf_log_event [simp]: "wf_endpoint (log_event ev e) = wf_endpoint e"
  by (simp add: wf_endpoint_def)

lemma wf_send_data:
  assumes "wf_endpoint e"
  shows "wf_endpoint (fst (snd (send_data data now e st)))"
proof (cases "fst (send_data data now e st)")
  case True
  have "insert (nextseq e) {0..<nextseq e} = {0..<nextseq e + 1}"
    using assms by (auto simp: wf_endpoint_def)
  with assms True show ?thesis
    by (simp add: send_data_def alloc_def Let_def wf_endpoint_def split: if_splits)
next
  case False
  with assms show ?thesis by (simp add: send_data_rejected)
qed

lemma wf_timeout:
  assumes "wf_endpoint e"
  shows "wf_endpoint (fst (timeout now e))"
  using assms by (simp add: timeout_def Let_def wf_endpoint_def split: option.split)

lemma wf_accept_data:
  assumes "wf_endpoint e"
  shows "case accept_data pl e of Inl err \<Rightarrow> wf_endpoint (snd err) | Inr e' \<Rightarrow> wf_endpoint e'"
  using assms by (simp add: accept_data_def Let_def wf_endpoint_def)

lemma wf_rtt_update:
  assumes "wf_endpoint e"
  shows "case rtt_update s e of Inl err \<Rightarrow> wf_endpoint (snd err) | Inr e' \<Rightarrow> wf_endpoint e'"
  using assms by (simp add: rtt_update_def Let_def wf_endpoint_def split: option.split)

lemma wf_slide_window:
  assumes "wf_endpoint e" and "base e \<le> a"
  shows "wf_endpoint (slide_window a e)"
  using assms by (simp add: wf_endpoint_def)

lemma wf_fast_retransmit:
  assumes "wf_endpoint e"
  shows "wf_endpoint (fast_retransmit now e)"
  using assms by (simp add: wf_endpoint_def)

lemma rtt_update_base:
  "case rtt_update s e of Inl err \<Rightarrow> base (snd err) = base e | Inr e' \<Rightarrow> base e' = base e"
  by (simp add: rtt_update_def Let_def split: option.split)

lemma wf_on_ack:
  assumes "wf_endpoint e"
  shows "case on_ack a now e of Inl err \<Rightarrow> wf_endpoint (snd err) | Inr res \<Rightarrow> wf_endpoint (fst res)"
proof (cases "a \<ge> base e")
  case True
  show ?thesis
  proof (cases "sent_ts e a")
    case None
    with True wf_slide_window [OF assms True] show ?thesis
      by (simp add: on_ack_def)
  next
    case (Some ts)
    show ?thesis
    proof (cases "rtt_update (max 0 (now - ts)) e")
      case (Inl err)
      with wf_rtt_update [OF assms, where s = "max 0 (now - ts)"] True Some show ?thesis
        by (simp add: on_ack_def)
    next
      case (Inr e1)
      with wf_rtt_update [OF assms, where s = "max 0 (now - ts)"] have w: "wf_endpoint e1" by simp
      from Inr rtt_update_base [where s = "max 0 (now - ts)" and e = e] True have "base e1 \<le> a" by simp
      with w have "wf_endpoint (slide_window a e1)" by (rule wf_slide_window)
      with True Some Inr show ?thesis by (simp add: on_ack_def)
    qed
  qed
next
  case False
  have d: "wf_endpoint (log_event ''DUPLICATE_ACK'' (e\<lparr>dup_count := dup_count e + 1\<rparr>))"
    using assms by (simp add: wf_endpoint_def)
  from False assms d wf_fast_retransmit [OF d] show ?thesis
    by (simp add: on_ack_def Let_def split: option.split)
qed

lemma wf_recv_app_data:
  assumes "wf_endpoint e"
  shows "wf_endpoint (snd (recv_app_data e))"
  using assms by (simp add: recv_app_data_def wf_endpoint_def split: list.split)

lemma wf_on_receive:
  assumes "wf_endpoint e"
  shows "case on_receive pkt now e st of
           Inl err \<Rightarrow> wf_endpoint (snd err) | Inr res \<Rightarrow> wf_endpoint (fst res)"
proof (rule on_receive_preserves [where P = wf_endpoint])
  show "wf_endpoint (log_event ev x)" if "wf_endpoint x" for ev x
    using that by simp
  show "wf_endpoint e"
    by (rule assms)
  show "case accept_data pl e of Inl err \<Rightarrow> wf_endpoint (snd err) | Inr e' \<Rightarrow> wf_endpoint e'" for pl
    using assms by (rule wf_accept_data)
  show "case on_ack a now e of Inl err \<Rightarrow> wf_endpoint (snd err) | Inr res \<Rightarrow> wf_endpoint (fst res)"
    for a
    using assms by (rule wf_on_ack)
qed

lemma wf_ep_step:
  assumes "wf_endpoint e"
  shows "wf_endpoint (ep_step e st c)"
proof (rule ep_step_preserves [where P = wf_endpoint])
  show "wf_endpoint (fst (snd (send_data data now e st)))" for data now
    using assms by (rule wf_send_data)
  show "case on_receive pkt now e st of
          Inl err \<Rightarrow> wf_endpoint (snd err) | Inr res \<Rightarrow> wf_endpoint (fst res)" for pkt now
    using assms by (rule wf_on_receive)
  show "wf_endpoint (fst (timeout now e))" for now
    using assms by (rule wf_timeout)
  show "wf_endpoint (snd (recv_app_data e))"
    using assms by (rule wf_recv_app_data)
qed

lemma wf_new_endpoint:
  "wf_endpoint (new_endpoint nm init_rto_ms al be kk ecc ssthresh_init cwnd_init ai md)"
  by (simp add: wf_endpoint_def new_endpoint_def)

lemma wf_ep_reachable:
  assumes "ep_reachable (new_endpoint nm init_rto_ms al be kk ecc ssthresh_init cwnd_init ai md) e"
  shows "wf_endpoint e"
  using assms
proof (induction rule: ep_reachable.induct)
  case ep_start
  show ?case by (rule wf_new_endpoint)
next
  case (ep_next e st c)
  then show ?case by (simp add: wf_ep_step)
qed

subsection \<open>The congestion window and the threshold\<close>

lemma cc_inv_log_event [simp]: "cc_inv (log_event ev e) = cc_inv e"
  by (simp add: cc_inv_def)

lemma cc_inv_send_data:
  assumes "cc_inv e"
  shows "cc_inv (fst (snd (send_data data now e st)))"
  using assms by (simp add: send_data_def Let_def cc_inv_def)

lemma cc_inv_timeout:
  assumes "cc_inv e"
  shows "cc_inv (fst (timeout now e))"
  using assms by (simp add: timeout_def Let_def cc_inv_def split: option.split)

lemma cc_inv_accept_data:
  assumes "cc_inv e"
  shows "case accept_data pl e of Inl err \<Rightarrow> cc_inv (snd err) | Inr e' \<Rightarrow> cc_inv e'"
proof -
  from assms have c: "1 \<le> cwnd e" and q: "0 \<le> ai_factor e / cwnd e"
    by (simp_all add: cc_inv_def)
  from c q have "1 \<le> cwnd e + ai_factor e / cwnd e"
    by linarith
  moreover from c q have "cwnd e + ai_factor e / cwnd e \<noteq> 0"
    by linarith
  ultimately show ?thesis using assms
    by (simp add: accept_data_def Let_def cc_inv_def)
qed

lemma cc_inv_rtt_update:
  assumes "cc_inv e"
  shows "case rtt_update s e of Inl err \<Rightarrow> cc_inv (snd err) | Inr e' \<Rightarrow> cc_inv e'"
  using assms by (simp add: rtt_update_def Let_def cc_inv_def split: option.split)

lemma cc_inv_fast_retransmit:
  assumes "cc_inv e"
  shows "cc_inv (fast_retransmit now e)"
proof (cases "enable_congestion_control e")
  case True
  have "(1::real) \<le> real_of_int (max 2 \<lfloor>cwnd e * md_factor e\<rfloor>)"
    by (simp add: le_max_iff_disj)
  with assms True show ?thesis
    by (simp add: cc_inv_def fast_retransmit_congestion)
next
  case False
  with assms show ?thesis
    by (simp add: cc_inv_def fast_retransmit_congestion)
qed

lemma cc_inv_on_ack:
  assumes "cc_inv e"
  shows "case on_ack a now e of Inl err \<Rightarrow> cc_inv (snd err) | Inr res \<Rightarrow> cc_inv (fst res)"
proof (cases "a \<ge> base e")
  case True
  show ?thesis
  proof (cases "sent_ts e a")
    case None
    with True assms show ?thesis
      by (simp add: on_ack_def cc_inv_def)
  next
    case (Some ts)
    from cc_inv_rtt_update [OF assms, where s = "max 0 (now - ts)"] True Some show ?thesis
      by (cases "rtt_update (max 0 (now - ts)) e") (simp_all add: on_ack_def cc_inv_def)
  qed
next
  case False
  have d: "cc_inv (log_event ''DUPLICATE_ACK'' (e\<lparr>dup_count := dup_count e + 1\<rparr>))"
    using assms by (simp add: cc_inv_def)
  from False assms d cc_inv_fast_retransmit [OF d] show ?thesis
    by (simp add: on_ack_def Let_def split: option.split)
qed

lemma cc_inv_recv_app_data:
  assumes "cc_inv e"
  shows "cc_inv (snd (recv_app_data e))"
  using assms by (simp add: recv_app_data_def cc_inv_def split: list.split)

lemma cc_inv_on_receive:
  assumes "cc_inv e"
  shows "case on_receive pkt now e st of
           Inl err \<Rightarrow> cc_inv (snd err) | Inr res \<Rightarrow> cc_inv (fst res)"
proof (rule on_receive_preserves [where P = cc_inv])
  show "cc_inv (log_event ev x)" if "cc_inv x" for ev x
    using that by simp
  show "cc_inv e"
    by (rule assms)
  show "case accept_data pl e of Inl err \<Rightarrow> cc_inv (snd err) | Inr e' \<Rightarrow> cc_inv e'" for pl
    using assms by (rule cc_inv_accept_data)
  show "case on_ack a now e of Inl err \<Rightarrow> cc_inv (snd err) | Inr res \<Rightarrow> cc_inv (fst res)"
    for a
    using assms by (rule cc_inv_on_ack)
qed

lemma cc_inv_ep_step:
  assumes "cc_inv e"
  shows "cc_inv (ep_step e st c)"
proof (rule ep_step_preserves [where P = cc_inv])
  show "cc_inv (fst (snd (send_data data now e st)))" for data now
    using assms by (rule cc_inv_send_data)
  show "case on_receive pkt now e st of
          Inl err \<Rightarrow> cc_inv (snd err) | Inr res \<Rightarrow> cc_inv (fst res)" for pkt now
    using assms by (rule cc_inv_on_receive)
  show "cc_inv (fst (timeout now e))" for now
    using assms by (rule cc_inv_timeout)
  show "cc_inv (snd (recv_app_data e))"
    using assms by (rule cc_inv_recv_app_data)
qed

text \<open>
  Claim C9. An endpoint is built with \<^verbatim>\<open>cwnd_init = 1\<close>, \<^verbatim>\<open>ssthresh_init = 65535\<close> and
  an additive increase \<^verbatim>\<open>ai_factor\<close> that is not negative (the part of a validated
  configuration that the bounds need). In every state it reaches through calls of
  \<^verbatim>\<open>send_data\<close>, \<^verbatim>\<open>on_receive\<close> with any packet, \<^verbatim>\<open>recv_app_data\<close> and fires of the
  timer, \<^verbatim>\<open>cwnd\<close> is at least 1 and \<^verbatim>\<open>ssthresh\<close> is at least 2.
\<close>

theorem congestion_bounds:
  assumes "0 \<le> ai"
    and "ep_reachable (new_endpoint nm init_rto_ms al be kk ecc 65535 1 ai md) e"
  shows "1 \<le> cwnd e \<and> 2 \<le> ssthresh e"
proof -
  from assms(2) have "cc_inv e"
  proof (induction rule: ep_reachable.induct)
    case ep_start
    from assms(1) show ?case by (simp add: cc_inv_def new_endpoint_def)
  next
    case (ep_next e st c)
    then show ?case by (simp add: cc_inv_ep_step)
  qed
  then show ?thesis by (simp add: cc_inv_def)
qed

theorem congestion_bounds_witness:
  "(0::real) \<le> 1 \<and>
   ep_reachable (new_endpoint ''A'' 200 (1 / 8) (1 / 4) 4 True 65535 1 1 (1 / 2))
     (ep_step (ep_step (new_endpoint ''A'' 200 (1 / 8) (1 / 4) 4 True 65535 1 1 (1 / 2))
        empty_store (Call_send_data [1] 0)) empty_store (Call_timeout 1)) \<and>
   1 \<le> cwnd (ep_step (ep_step (new_endpoint ''A'' 200 (1 / 8) (1 / 4) 4 True 65535 1 1 (1 / 2))
        empty_store (Call_send_data [1] 0)) empty_store (Call_timeout 1)) \<and>
   2 \<le> ssthresh (ep_step (ep_step (new_endpoint ''A'' 200 (1 / 8) (1 / 4) 4 True 65535 1 1 (1 / 2))
        empty_store (Call_send_data [1] 0)) empty_store (Call_timeout 1))"
proof -
  have ai: "(0::real) \<le> 1" by simp
  have r: "ep_reachable (new_endpoint ''A'' 200 (1 / 8) (1 / 4) 4 True 65535 1 1 (1 / 2))
     (ep_step (ep_step (new_endpoint ''A'' 200 (1 / 8) (1 / 4) 4 True 65535 1 1 (1 / 2))
        empty_store (Call_send_data [1] 0)) empty_store (Call_timeout 1))"
    by (intro ep_next ep_start)
  from ai r congestion_bounds [OF ai r] show ?thesis by blast
qed

section \<open>The RTT estimator\<close>

lemma rtt_update_first:
  assumes "srtt e = None"
  shows "\<exists>e1. rtt_update s e = Inr e1 \<and> srtt e1 = Some s \<and> rttvar e1 = Some (s / 2) \<and>
     rto_ms e1 = max 100 (min (py_int (1000 * (s + rto_k e * (s / 2)))) 60000) \<and>
     rtt_samples e1 = rtt_samples e @ [s * 1000] \<and> base e1 = base e"
  using assms by (simp add: rtt_update_def Let_def)

lemma rtt_update_next:
  assumes "srtt e = Some sr" and "rttvar e = Some rv"
  shows "\<exists>e1. rtt_update s e = Inr e1 \<and>
     rttvar e1 = Some ((1 - beta e) * rv + beta e * \<bar>sr - s\<bar>) \<and>
     srtt e1 = Some ((1 - alpha e) * sr + alpha e * s) \<and>
     rto_ms e1 = max 100 (min (py_int (1000 * ((1 - alpha e) * sr + alpha e * s +
        rto_k e * ((1 - beta e) * rv + beta e * \<bar>sr - s\<bar>)))) 60000) \<and>
     rtt_samples e1 = rtt_samples e @ [s * 1000] \<and> base e1 = base e"
  using assms by (simp add: rtt_update_def Let_def)

lemma on_ack_new_sample:
  assumes "base e \<le> a" and "sent_ts e a = Some ts"
    and "rtt_update (max 0 (now - ts)) e = Inr e1"
  shows "on_ack a now e = Inr (slide_window a e1, [])"
  using assms by (simp add: on_ack_def)

text \<open>
  Claim C7, as the code has it; the floats of the source are read as real numbers. An
  endpoint made by the constructor has reached a state in which it gets a new ACK
  \<open>a \<ge> base\<close> whose value has a send time stamp \<open>ts\<close>. The sample is
  \<open>s = max 0 (now - ts)\<close>, in seconds. The first sample sets \<^verbatim>\<open>srtt\<close> to \<open>s\<close> and
  \<^verbatim>\<open>rttvar\<close> to \<open>s / 2\<close>; a later sample sets \<^verbatim>\<open>rttvar\<close> to
  \<open>(1 - beta) * rttvar + beta * |srtt - s|\<close> and then \<^verbatim>\<open>srtt\<close> to
  \<open>(1 - alpha) * srtt + alpha * s\<close>. After the sample \<^verbatim>\<open>rto_ms\<close> is
  \<open>1000 * (srtt + k * rttvar)\<close> cut to a whole number of milliseconds (towards zero)
  and then brought into the interval from 100 to 60000.
\<close>

theorem rtt_sample_updates_rto:
  assumes "ep_reachable (new_endpoint nm init_rto_ms al be kk ecc ssthresh_init cwnd_init ai md) e"
    and "pkt_type pkt = Some ''ACK''" and "pkt_ack pkt = Some a"
    and "base e \<le> a" and "sent_ts e a = Some ts"
  shows "\<exists>e'. on_receive pkt now e st = Inr (e', st, []) \<and>
     rtt_samples e' = rtt_samples e @ [max 0 (now - ts) * 1000] \<and>
     (case srtt e of
        None \<Rightarrow> srtt e' = Some (max 0 (now - ts)) \<and> rttvar e' = Some (max 0 (now - ts) / 2)
      | Some sr \<Rightarrow>
          rttvar e' = Some ((1 - beta e) * the (rttvar e) + beta e * \<bar>sr - max 0 (now - ts)\<bar>) \<and>
          srtt e' = Some ((1 - alpha e) * sr + alpha e * max 0 (now - ts))) \<and>
     rto_ms e' =
       max 100 (min (py_int (1000 * (the (srtt e') + rto_k e * the (rttvar e')))) 60000) \<and>
     100 \<le> rto_ms e' \<and> rto_ms e' \<le> 60000 \<and> base e' = a + 1 \<and> dup_count e' = 0"
proof -
  let ?s = "max 0 (now - ts)"
  from assms(1) have "wf_endpoint e"
    by (rule wf_ep_reachable)
  then have est: "rttvar e = None \<longrightarrow> srtt e = None"
    by (simp add: wf_endpoint_def)
  show ?thesis
  proof (cases "srtt e")
    case None
    from rtt_update_first [OF None, of ?s] obtain e1 where
      u: "rtt_update ?s e = Inr e1" and f: "srtt e1 = Some ?s" "rttvar e1 = Some (?s / 2)"
        "rto_ms e1 = max 100 (min (py_int (1000 * (?s + rto_k e * (?s / 2)))) 60000)"
        "rtt_samples e1 = rtt_samples e @ [?s * 1000]"
      by blast
    from assms(4,5) u have "on_ack a now e = Inr (slide_window a e1, [])"
      by (rule on_ack_new_sample)
    with assms(2,3) have "on_receive pkt now e st = Inr (slide_window a e1, st, [])"
      by (simp add: on_receive_ack)
    with None f show ?thesis by simp
  next
    case (Some sr)
    with est obtain rv where rv: "rttvar e = Some rv" by auto
    from rtt_update_next [OF Some rv, of ?s] obtain e1 where
      u: "rtt_update ?s e = Inr e1"
      and f: "rttvar e1 = Some ((1 - beta e) * rv + beta e * \<bar>sr - ?s\<bar>)"
        "srtt e1 = Some ((1 - alpha e) * sr + alpha e * ?s)"
        "rto_ms e1 = max 100 (min (py_int (1000 * ((1 - alpha e) * sr + alpha e * ?s +
            rto_k e * ((1 - beta e) * rv + beta e * \<bar>sr - ?s\<bar>)))) 60000)"
        "rtt_samples e1 = rtt_samples e @ [?s * 1000]"
      by blast
    from assms(4,5) u have "on_ack a now e = Inr (slide_window a e1, [])"
      by (rule on_ack_new_sample)
    with assms(2,3) have "on_receive pkt now e st = Inr (slide_window a e1, st, [])"
      by (simp add: on_receive_ack)
    with Some rv f show ?thesis by simp
  qed
qed

text \<open>
  The first ACK arrives a quarter of a second after the packet was sent, the second
  packet's ACK three quarters of a second after that packet.
\<close>

theorem rtt_sample_updates_rto_witness:
  "ep_reachable (new_endpoint ''A'' 200 (1 / 8) (1 / 4) 4 True 65535 1 1 (1 / 2))
     (fst (ep_run (new_endpoint ''A'' 200 (1 / 8) (1 / 4) 4 True 65535 1 1 (1 / 2), empty_store)
        [Call_send_data [1] 0])) \<and>
   pkt_type (ack_packet 0) = Some ''ACK'' \<and> pkt_ack (ack_packet 0) = Some 0 \<and>
   base (fst (ep_run (new_endpoint ''A'' 200 (1 / 8) (1 / 4) 4 True 65535 1 1 (1 / 2), empty_store)
        [Call_send_data [1] 0])) \<le> 0 \<and>
   sent_ts (fst (ep_run (new_endpoint ''A'' 200 (1 / 8) (1 / 4) 4 True 65535 1 1 (1 / 2), empty_store)
        [Call_send_data [1] 0])) 0 = Some 0 \<and>
   (\<exists>e'. on_receive (ack_packet 0) (1 / 4)
        (fst (ep_run (new_endpoint ''A'' 200 (1 / 8) (1 / 4) 4 True 65535 1 1 (1 / 2), empty_store)
           [Call_send_data [1] 0])) empty_store = Inr (e', empty_store, []) \<and>
      srtt e' = Some (1 / 4) \<and> rttvar e' = Some (1 / 8) \<and> rto_ms e' = 750 \<and> base e' = 1)"
proof -
  let ?init = "new_endpoint ''A'' 200 (1 / 8) (1 / 4) 4 True 65535 1 1 (1 / 2)"
  let ?e = "fst (ep_run (?init, empty_store) [Call_send_data [1] 0])"
  have r: "ep_reachable ?init ?e"
    by (intro ep_run_reachable ep_start)
  have h1: "pkt_type (ack_packet 0) = Some ''ACK''" and h2: "pkt_ack (ack_packet 0) = Some 0"
    by (simp_all add: ack_packet_def)
  have v: "base ?e = 0" "sent_ts ?e 0 = Some 0" "srtt ?e = None" "rto_k ?e = 4"
    by (simp_all add: endpoint_defs cong: let_weak_cong)
  have h3: "base ?e \<le> 0" and h4: "sent_ts ?e 0 = Some 0"
    by (simp_all add: v)
  from rtt_sample_updates_rto [OF r h1 h2 h3 h4, of "1 / 4" empty_store]
  obtain e' where res: "on_receive (ack_packet 0) (1 / 4) ?e empty_store = Inr (e', empty_store, [])"
    and est: "case srtt ?e of
        None \<Rightarrow> srtt e' = Some (max 0 (1 / 4 - 0)) \<and> rttvar e' = Some (max 0 (1 / 4 - 0) / 2)
      | Some sr \<Rightarrow>
          rttvar e' = Some ((1 - beta ?e) * the (rttvar ?e) + beta ?e * \<bar>sr - max 0 (1 / 4 - 0)\<bar>) \<and>
          srtt e' = Some ((1 - alpha ?e) * sr + alpha ?e * max 0 (1 / 4 - 0))"
    and rto: "rto_ms e' =
       max 100 (min (py_int (1000 * (the (srtt e') + rto_k ?e * the (rttvar e')))) 60000)"
    and b: "base e' = 0 + 1"
    by blast
  from est have s: "srtt e' = Some (1 / 4)" "rttvar e' = Some (1 / 8)"
    by (simp_all add: v)
  from rto have "rto_ms e' = 750"
    by (simp add: s v py_int_def)
  with res s b
  have "\<exists>e'. on_receive (ack_packet 0) (1 / 4) ?e empty_store = Inr (e', empty_store, []) \<and>
      srtt e' = Some (1 / 4) \<and> rttvar e' = Some (1 / 8) \<and> rto_ms e' = 750 \<and> base e' = 1"
    by simp
  with r h1 h2 h3 h4 show ?thesis
    by blast
qed

text \<open>
  Claim C7 as stated fails: the RTO is not \<open>SRTT + K * RTTVAR\<close> but its integer part
  in milliseconds. With the first sample \<open>513 / 2048\<close> s (0.25048828125, a float),
  \<^verbatim>\<open>srtt\<close> is that sample, \<^verbatim>\<open>rttvar\<close> is half of it,
  \<open>1000 * (srtt + 4 * rttvar) = 751.46484375\<close>, and \<^verbatim>\<open>rto_ms\<close> is 751.
\<close>

theorem rto_is_truncated:
  "srtt (fst (ep_run (default_endpoint ''A'', empty_store)
      [Call_send_data [1] 0, Call_on_receive (ack_packet 0) (513 / 2048)])) = Some (513 / 2048) \<and>
   rttvar (fst (ep_run (default_endpoint ''A'', empty_store)
      [Call_send_data [1] 0, Call_on_receive (ack_packet 0) (513 / 2048)])) = Some (513 / 4096) \<and>
   rto_k (fst (ep_run (default_endpoint ''A'', empty_store)
      [Call_send_data [1] 0, Call_on_receive (ack_packet 0) (513 / 2048)])) = 4 \<and>
   rto_ms (fst (ep_run (default_endpoint ''A'', empty_store)
      [Call_send_data [1] 0, Call_on_receive (ack_packet 0) (513 / 2048)])) = 751 \<and>
   max 100 (min (1000 * (513 / 2048 + 4 * (513 / 4096))) 60000) = (192375 / 256 :: real) \<and>
   real_of_int 751 \<noteq> (192375 / 256 :: real)"
  by (simp add: endpoint_defs cong: let_weak_cong)

section \<open>Two endpoints wired by the channel\<close>

subsection \<open>What a send through the channel changes\<close>

lemma peer_simps [simp]: "peer (peer s) = s" "peer s \<noteq> s" "s \<noteq> peer s"
  "peer Side_A = Side_B" "peer Side_B = Side_A"
  by (cases s; simp add: peer_def)+

lemma side_cases: "s' = s \<or> s' = peer s"
  by (cases s; cases s'; simp)

lemma channel_log_event_fields [simp]:
  "endpoint_A (channel_log_event ev w) = endpoint_A w"
  "endpoint_B (channel_log_event ev w) = endpoint_B w"
  "ab (channel_log_event ev w) = ab w"
  "ba (channel_log_event ev w) = ba w"
  "packets (channel_log_event ev w) = packets w"
  "deliveries (channel_log_event ev w) = deliveries w"
  "enable_logging (channel_log_event ev w) = enable_logging w"
  by (simp_all add: channel_log_event_def Let_def)

lemma endpoint_of_simps [simp]:
  "endpoint_of s (channel_log_event ev w) = endpoint_of s w"
  "endpoint_of s (set_link s' l w) = endpoint_of s w"
  "endpoint_of s (write_cell r p w) = endpoint_of s w"
  "endpoint_of s (w\<lparr>deliveries := ds\<rparr>) = endpoint_of s w"
  "endpoint_of s (w\<lparr>packets := st\<rparr>) = endpoint_of s w"
  "endpoint_of s (set_endpoint s e w) = e"
  "endpoint_of (peer s) (set_endpoint s e w) = endpoint_of (peer s) w"
  "endpoint_of s (set_endpoint (peer s) e w) = endpoint_of s w"
  by (cases s; simp add: endpoint_of_def set_link_def write_cell_def set_endpoint_def peer_def)+

lemma link_of_simps [simp]:
  "link_of s (channel_log_event ev w) = link_of s w"
  "link_of s (set_link s l w) = l"
  "link_of (peer s) (set_link s l w) = link_of (peer s) w"
  "link_of s (write_cell r p w) = link_of s w"
  "link_of s (w\<lparr>deliveries := ds\<rparr>) = link_of s w"
  "link_of s (w\<lparr>packets := st\<rparr>) = link_of s w"
  "link_of s (set_endpoint s' e w) = link_of s w"
  by (cases s; simp add: link_of_def set_link_def write_cell_def set_endpoint_def peer_def)+

lemma packets_simps [simp]:
  "packets (set_link s l w) = packets w"
  "packets (set_endpoint s e w) = packets w"
  "next_ref (packets (write_cell r p w)) = next_ref (packets w)"
  "cells (packets (write_cell r p w)) = (cells (packets w))(r := p)"
  by (simp_all add: set_link_def write_cell_def set_endpoint_def)

lemma deliveries_simps [simp]:
  "deliveries (set_link s l w) = deliveries w"
  "deliveries (set_endpoint s e w) = deliveries w"
  "deliveries (write_cell r p w) = deliveries w"
  by (simp_all add: set_link_def write_cell_def set_endpoint_def)

lemma same_header_refl [simp]: "same_header p p"
  by (simp add: same_header_def)

lemma same_header_add_checksum [simp]: "same_header (add_checksum p) p"
  by (simp add: same_header_def add_checksum_def)

lemma same_header_maybe_corrupt [simp]: "same_header (fst (maybe_corrupt l p x i)) p"
  by (simp add: same_header_def maybe_corrupt_def split: option.split)

lemma same_header_trans: "same_header p q \<Longrightarrow> same_header q r \<Longrightarrow> same_header p r"
  by (simp add: same_header_def)

lemma sender_ok_same_header: "same_header p q \<Longrightarrow> sender_ok e p = sender_ok e q"
  by (simp add: same_header_def sender_ok_def)

lemma maybe_corrupt_buffer [simp]:
  "reorder_buffer (snd (maybe_corrupt l p x i)) = reorder_buffer l"
  by (simp add: maybe_corrupt_def split: option.split)

lemma maybe_reorder_result:
  "fst (maybe_reorder l r x) = Some q \<Longrightarrow> q = r \<or> reorder_buffer l = Some q"
  by (auto simp: maybe_reorder_def split: if_splits option.splits)

lemma maybe_reorder_buffer:
  "reorder_buffer (snd (maybe_reorder l r x)) = Some q \<Longrightarrow> q = r \<or> reorder_buffer l = Some q"
  by (auto simp: maybe_reorder_def split: if_splits option.splits)

lemma channel_send_endpoint [simp]: "endpoint_of s' (channel_send s r d w) = endpoint_of s' w"
  by (simp add: channel_send_def Let_def split: option.split)

lemma channel_send_next_ref [simp]:
  "next_ref (packets (channel_send s r d w)) = next_ref (packets w)"
  by (simp add: channel_send_def Let_def split: option.split)

lemma channel_send_header:
  "same_header (cells (packets (channel_send s r d w)) r') (cells (packets w) r')"
proof (cases "r' = r")
  case True
  have "same_header (fst (maybe_corrupt l (add_checksum p) x i)) p" for l p x i
    by (rule same_header_trans [OF same_header_maybe_corrupt same_header_add_checksum])
  with True show ?thesis
    by (simp add: channel_send_def Let_def split: option.split)
next
  case False
  then show ?thesis
    by (simp add: channel_send_def Let_def split: option.split)
qed

lemma channel_send_peer_link [simp]:
  "link_of (peer s) (channel_send s r d w) = link_of (peer s) w"
  by (simp add: channel_send_def Let_def split: option.split)

lemma link_before_reorder_buffer [simp]:
  "reorder_buffer (link_before_reorder s r d w) = reorder_buffer (link_of s w)"
  by (simp add: link_before_reorder_def)

lemma channel_send_dropped:
  assumes "maybe_drop ((link_of s w)\<lparr>link_packets_sent := link_packets_sent (link_of s w) + 1\<rparr>)
    (drop_draw d)"
  shows "deliveries (channel_send s r d w) = deliveries w"
    and "reorder_buffer (link_of s (channel_send s r d w)) = reorder_buffer (link_of s w)"
  using assms by (simp_all add: channel_send_def Let_def)

lemma channel_send_passed:
  assumes "\<not> maybe_drop ((link_of s w)\<lparr>link_packets_sent := link_packets_sent (link_of s w) + 1\<rparr>)
    (drop_draw d)"
  shows "deliveries (channel_send s r d w) =
      (case fst (maybe_reorder (link_before_reorder s r d w) r (reorder_draw d)) of
         None \<Rightarrow> deliveries w
       | Some q \<Rightarrow> deliveries w @
           [(sample_delay (snd (maybe_reorder (link_before_reorder s r d w) r (reorder_draw d)))
               (jitter_draw d), s, q)])"
    and "link_of s (channel_send s r d w) =
      snd (maybe_reorder (link_before_reorder s r d w) r (reorder_draw d))"
  using assms
  by (simp_all add: channel_send_def link_before_reorder_def Let_def split: option.split)

lemma channel_send_buffer:
  assumes "reorder_buffer (link_of s (channel_send s r d w)) = Some q"
  shows "q = r \<or> reorder_buffer (link_of s w) = Some q"
proof (cases "maybe_drop ((link_of s w)\<lparr>link_packets_sent := link_packets_sent (link_of s w) + 1\<rparr>)
    (drop_draw d)")
  case True
  with assms show ?thesis
    by (simp add: channel_send_dropped)
next
  case False
  with assms have "reorder_buffer
      (snd (maybe_reorder (link_before_reorder s r d w) r (reorder_draw d))) = Some q"
    by (simp add: channel_send_passed)
  from maybe_reorder_buffer [OF this] show ?thesis
    by simp
qed

lemma channel_send_deliveries:
  assumes "item \<in> set (deliveries (channel_send s r d w))"
  shows "item \<in> set (deliveries w) \<or>
     (fst (snd item) = s \<and> (snd (snd item) = r \<or> reorder_buffer (link_of s w) = Some (snd (snd item))))"
proof (cases "maybe_drop ((link_of s w)\<lparr>link_packets_sent := link_packets_sent (link_of s w) + 1\<rparr>)
    (drop_draw d)")
  case True
  with assms show ?thesis
    by (simp add: channel_send_dropped)
next
  case False
  show ?thesis
  proof (cases "fst (maybe_reorder (link_before_reorder s r d w) r (reorder_draw d))")
    case None
    with assms False show ?thesis
      by (simp add: channel_send_passed)
  next
    case (Some q)
    from maybe_reorder_result [OF Some] have "q = r \<or> reorder_buffer (link_of s w) = Some q"
      by simp
    with assms False Some show ?thesis
      by (auto simp: channel_send_passed)
  qed
qed

subsection \<open>What a received packet changes\<close>

lemma accept_data_frame:
  "case accept_data pl e of
     Inl err \<Rightarrow> nextseq (snd err) = nextseq e \<and> sent (snd err) = sent e \<and>
                base (snd err) = base e \<and> last_acked (snd err) = last_acked e + 1
   | Inr e' \<Rightarrow> nextseq e' = nextseq e \<and> sent e' = sent e \<and>
               base e' = base e \<and> last_acked e' = last_acked e + 1"
  by (simp add: accept_data_def Let_def)

lemma rtt_update_frame:
  "case rtt_update x e of
     Inl err \<Rightarrow> nextseq (snd err) = nextseq e \<and> sent (snd err) = sent e \<and>
                base (snd err) = base e \<and> last_acked (snd err) = last_acked e
   | Inr e' \<Rightarrow> nextseq e' = nextseq e \<and> sent e' = sent e \<and>
               base e' = base e \<and> last_acked e' = last_acked e"
  by (simp add: rtt_update_def Let_def split: option.split)

lemma on_ack_frame:
  "case on_ack a now e of
     Inl err \<Rightarrow> nextseq (snd err) = nextseq e \<and> sent (snd err) = sent e \<and>
                base (snd err) = base e \<and> last_acked (snd err) = last_acked e
   | Inr res \<Rightarrow> nextseq (fst res) = nextseq e \<and> sent (fst res) = sent e \<and>
                last_acked (fst res) = last_acked e \<and>
                (base (fst res) = base e \<or> base (fst res) = a + 1) \<and>
                set (snd res) \<subseteq> ran (sent e)"
proof (cases "a \<ge> base e")
  case True
  show ?thesis
  proof (cases "sent_ts e a")
    case None
    with True show ?thesis by (simp add: on_ack_def)
  next
    case (Some ts)
    from rtt_update_frame [where x = "max 0 (now - ts)" and e = e] True Some show ?thesis
      by (cases "rtt_update (max 0 (now - ts)) e") (simp_all add: on_ack_def)
  qed
next
  case False
  then show ?thesis
    by (auto simp: on_ack_def Let_def ran_def split: option.split)
qed

text \<open>
  The endpoint \<open>e\<close> receives a packet of a peer whose \<^verbatim>\<open>nextseq\<close> is \<open>n\<close>: the
  sequence number of a DATA packet is below \<open>n\<close>, the value of an ACK is below the
  receiver's own \<^verbatim>\<open>nextseq\<close>.
\<close>

lemma on_receive_keeps:
  assumes wf: "wf_endpoint e" and b: "base e \<le> nextseq e" and la: "last_acked e < n"
    and data: "pkt_type pkt = Some ''DATA'' \<longrightarrow> (\<forall>sq. pkt_seq pkt = Some sq \<longrightarrow> sq < n)"
    and ack: "pkt_type pkt = Some ''ACK'' \<longrightarrow> (\<forall>a. pkt_ack pkt = Some a \<longrightarrow> a < nextseq e)"
  shows "case on_receive pkt now e st of
     Inl err \<Rightarrow> wf_endpoint (snd err) \<and> base (snd err) \<le> nextseq (snd err) \<and>
        nextseq (snd err) = nextseq e \<and> sent (snd err) = sent e \<and>
        last_acked e \<le> last_acked (snd err) \<and> last_acked (snd err) < n
   | Inr res \<Rightarrow> wf_endpoint (fst res) \<and> base (fst res) \<le> nextseq (fst res) \<and>
        nextseq (fst res) = nextseq e \<and> sent (fst res) = sent e \<and>
        last_acked e \<le> last_acked (fst res) \<and> last_acked (fst res) < n"
proof (rule on_receive_preserves [where P = "\<lambda>x. wf_endpoint x \<and> base x \<le> nextseq x \<and>
    nextseq x = nextseq e \<and> sent x = sent e \<and> last_acked e \<le> last_acked x \<and> last_acked x < n"])
  fix ev x
  assume "wf_endpoint x \<and> base x \<le> nextseq x \<and> nextseq x = nextseq e \<and> sent x = sent e \<and>
    last_acked e \<le> last_acked x \<and> last_acked x < n"
  then show "wf_endpoint (log_event ev x) \<and> base (log_event ev x) \<le> nextseq (log_event ev x) \<and>
    nextseq (log_event ev x) = nextseq e \<and> sent (log_event ev x) = sent e \<and>
    last_acked e \<le> last_acked (log_event ev x) \<and> last_acked (log_event ev x) < n"
    by simp
next
  from wf b la show "wf_endpoint e \<and> base e \<le> nextseq e \<and> nextseq e = nextseq e \<and>
    sent e = sent e \<and> last_acked e \<le> last_acked e \<and> last_acked e < n"
    by simp
next
  fix pl
  assume ty: "pkt_type pkt = Some ''DATA''" and sq: "pkt_seq pkt = Some (last_acked e + 1)"
  with data have nxt: "last_acked e + 1 < n" by simp
  from wf_accept_data [OF wf, where pl = pl] accept_data_frame [where pl = pl and e = e] b nxt
  show "case accept_data pl e of
     Inl err \<Rightarrow> wf_endpoint (snd err) \<and> base (snd err) \<le> nextseq (snd err) \<and>
        nextseq (snd err) = nextseq e \<and> sent (snd err) = sent e \<and>
        last_acked e \<le> last_acked (snd err) \<and> last_acked (snd err) < n
   | Inr e' \<Rightarrow> wf_endpoint e' \<and> base e' \<le> nextseq e' \<and>
        nextseq e' = nextseq e \<and> sent e' = sent e \<and>
        last_acked e \<le> last_acked e' \<and> last_acked e' < n"
    by (cases "accept_data pl e") simp_all
next
  fix a
  assume ty: "pkt_type pkt = Some ''ACK''" and a: "pkt_ack pkt = Some a"
  with ack have bound: "a < nextseq e" by simp
  from wf_on_ack [OF wf, where a = a and now = now] on_ack_frame [where a = a and now = now and e = e] b la bound
  show "case on_ack a now e of
     Inl err \<Rightarrow> wf_endpoint (snd err) \<and> base (snd err) \<le> nextseq (snd err) \<and>
        nextseq (snd err) = nextseq e \<and> sent (snd err) = sent e \<and>
        last_acked e \<le> last_acked (snd err) \<and> last_acked (snd err) < n
   | Inr res \<Rightarrow> wf_endpoint (fst res) \<and> base (fst res) \<le> nextseq (fst res) \<and>
        nextseq (fst res) = nextseq e \<and> sent (fst res) = sent e \<and>
        last_acked e \<le> last_acked (fst res) \<and> last_acked (fst res) < n"
    by (cases "on_ack a now e") auto
qed

lemma on_receive_outputs:
  assumes "on_receive pkt now e st = Inr (e', st', out)"
  shows "(st' = st \<and> set out \<subseteq> ran (sent e)) \<or>
     (st' = snd (alloc (ack_packet (last_acked e')) st) \<and> out = [next_ref st])"
proof (cases "pkt_type pkt = Some ''ACK''")
  case True
  show ?thesis
  proof (cases "pkt_ack pkt")
    case None
    with True assms show ?thesis by (simp add: on_receive_def)
  next
    case (Some a)
    from on_ack_frame [where a = a and now = now and e = e] True Some assms show ?thesis
      by (cases "on_ack a now e") (auto simp: on_receive_def)
  qed
next
  case False
  with assms show ?thesis
    by (auto simp: on_receive_def Let_def alloc_def split: option.splits if_splits sum.splits)
qed

subsection \<open>The invariant of the wired endpoints\<close>

lemma sender_ok_mono:
  assumes "sender_ok e p" and "nextseq e \<le> nextseq e'" and "last_acked e \<le> last_acked e'"
  shows "sender_ok e' p"
  using assms by (fastforce simp: sender_ok_def)

lemma ok_ref_channel_send [simp]: "ok_ref (channel_send s r d w) s' r' = ok_ref w s' r'"
  using channel_send_header [of s r d w r']
  by (simp add: ok_ref_def sender_ok_same_header)

lemma refs_of_channel_send:
  assumes "r' \<in> refs_of (channel_send s r d w) s'"
  shows "r' \<in> refs_of w s' \<or> (s' = s \<and> r' = r)"
proof -
  from assms consider
    (timer) item where "item \<in> set (deliveries (channel_send s r d w))"
      "fst (snd item) = s'" "snd (snd item) = r'"
    | (held) "reorder_buffer (link_of s' (channel_send s r d w)) = Some r'"
    | (kept) "r' \<in> ran (sent (endpoint_of s' w))"
    by (auto simp: refs_of_def)
  then show ?thesis
  proof cases
    case timer
    from channel_send_deliveries [OF timer(1)] timer(2,3) show ?thesis
      by (auto simp: refs_of_def)
  next
    case held
    show ?thesis
    proof (cases "s' = s")
      case True
      with held channel_send_buffer [of s r d w r'] show ?thesis
        by (auto simp: refs_of_def)
    next
      case False
      with side_cases [of s' s] have "s' = peer s" by simp
      with held show ?thesis
        by (simp add: refs_of_def)
    qed
  next
    case kept
    then show ?thesis by (simp add: refs_of_def)
  qed
qed

lemma inv_channel_send:
  assumes "channel_inv w" and "ok_ref w s r"
  shows "channel_inv (channel_send s r d w)"
  unfolding channel_inv_def
proof (intro allI conjI ballI)
  fix s'
  from assms(1) show "wf_endpoint (endpoint_of s' (channel_send s r d w))"
    and "base (endpoint_of s' (channel_send s r d w)) \<le> nextseq (endpoint_of s' (channel_send s r d w))"
    and "last_acked (endpoint_of (peer s') (channel_send s r d w))
           < nextseq (endpoint_of s' (channel_send s r d w))"
    by (simp_all add: channel_inv_def)
next
  fix s' r'
  assume "r' \<in> refs_of (channel_send s r d w) s'"
  from refs_of_channel_send [OF this] assms show "ok_ref (channel_send s r d w) s' r'"
    by (auto simp: channel_inv_def)
qed

lemma inv_send_all:
  assumes "channel_inv w" and "\<forall>r \<in> set rs. ok_ref w s r"
  shows "channel_inv (send_all s rs d w)"
  using assms
proof (induction rs arbitrary: w)
  case Nil
  then show ?case by simp
next
  case (Cons r rs)
  from Cons.prems have "channel_inv (channel_send s r d w)"
    by (simp add: inv_channel_send)
  moreover from Cons.prems have "\<forall>r' \<in> set rs. ok_ref (channel_send s r d w) s r'"
    by simp
  ultimately show ?case
    by (simp add: Cons.IH)
qed

lemma send_all_endpoint [simp]: "endpoint_of s' (send_all s rs d w) = endpoint_of s' w"
  by (induction rs arbitrary: w) simp_all

text \<open>
  An endpoint moves on and dictionaries are created: the sequence numbers and the
  acknowledged number do not go back, the old cells of the store are kept, and what is
  new in \<^verbatim>\<open>sent\<close> is a packet of this endpoint.
\<close>

lemma inv_update:
  assumes inv: "channel_inv w"
    and wf: "wf_endpoint e'" and b: "base e' \<le> nextseq e'"
    and n: "nextseq (endpoint_of s w) \<le> nextseq e'"
    and la: "last_acked (endpoint_of s w) \<le> last_acked e'"
    and la2: "last_acked e' < nextseq (endpoint_of (peer s) w)"
    and nr: "next_ref (packets w) \<le> next_ref st'"
    and old: "\<forall>r < next_ref (packets w). cells st' r = cells (packets w) r"
    and new: "\<forall>r \<in> ran (sent e'). r \<in> ran (sent (endpoint_of s w)) \<or>
                (r < next_ref st' \<and> sender_ok e' (cells st' r))"
  shows "channel_inv (set_endpoint s e' (w\<lparr>packets := st'\<rparr>))"
  unfolding channel_inv_def
proof (intro allI)
  fix s'
  let ?w = "set_endpoint s e' (w\<lparr>packets := st'\<rparr>)"
  have kept: "ok_ref ?w s r" if "ok_ref w s r" for r
  proof -
    from that have "r < next_ref (packets w)" and "sender_ok (endpoint_of s w) (cells (packets w) r)"
      by (simp_all add: ok_ref_def)
    with nr old sender_ok_mono [OF _ n la] show ?thesis
      by (simp add: ok_ref_def)
  qed
  have kept_peer: "ok_ref ?w (peer s) r" if "ok_ref w (peer s) r" for r
    using that nr old by (simp add: ok_ref_def)
  show "wf_endpoint (endpoint_of s' ?w) \<and>
    base (endpoint_of s' ?w) \<le> nextseq (endpoint_of s' ?w) \<and>
    last_acked (endpoint_of (peer s') ?w) < nextseq (endpoint_of s' ?w) \<and>
    (\<forall>r \<in> refs_of ?w s'. ok_ref ?w s' r)"
  proof (cases "s' = s")
    case True
    from inv have "last_acked (endpoint_of (peer s) w) < nextseq (endpoint_of s w)"
      by (simp add: channel_inv_def)
    with n have 3: "last_acked (endpoint_of (peer s) w) < nextseq e'"
      by simp
    have 4: "ok_ref ?w s r" if "r \<in> refs_of ?w s" for r
    proof -
      from that have "r \<in> refs_of w s \<or> r \<in> ran (sent e')"
        by (auto simp: refs_of_def)
      then show ?thesis
      proof
        assume "r \<in> refs_of w s"
        with inv have "ok_ref w s r" by (simp add: channel_inv_def)
        then show ?thesis by (rule kept)
      next
        assume "r \<in> ran (sent e')"
        with new have "r \<in> ran (sent (endpoint_of s w)) \<or>
            (r < next_ref st' \<and> sender_ok e' (cells st' r))"
          by simp
        then show ?thesis
        proof
          assume "r \<in> ran (sent (endpoint_of s w))"
          then have "r \<in> refs_of w s" by (simp add: refs_of_def)
          with inv have "ok_ref w s r" by (simp add: channel_inv_def)
          then show ?thesis by (rule kept)
        next
          assume "r < next_ref st' \<and> sender_ok e' (cells st' r)"
          then show ?thesis by (simp add: ok_ref_def)
        qed
      qed
    qed
    from True wf b 3 4 show ?thesis by simp
  next
    case False
    with side_cases [of s' s] have p: "s' = peer s" by simp
    from inv have "wf_endpoint (endpoint_of (peer s) w)"
      and "base (endpoint_of (peer s) w) \<le> nextseq (endpoint_of (peer s) w)"
      by (simp_all add: channel_inv_def)
    moreover have "ok_ref ?w (peer s) r" if "r \<in> refs_of ?w (peer s)" for r
    proof -
      from that have "r \<in> refs_of w (peer s)"
        by (simp add: refs_of_def)
      with inv have "ok_ref w (peer s) r" by (simp add: channel_inv_def)
      then show ?thesis by (rule kept_peer)
    qed
    ultimately show ?thesis using p la2 by simp
  qed
qed

lemma packets_update_same [simp]: "w\<lparr>packets := packets w\<rparr> = (w :: channel)"
  by simp

lemma inv_update_endpoint:
  assumes "channel_inv w"
    and "wf_endpoint e'" and "base e' \<le> nextseq e'"
    and "nextseq (endpoint_of s w) \<le> nextseq e'"
    and "last_acked (endpoint_of s w) \<le> last_acked e'"
    and "last_acked e' < nextseq (endpoint_of (peer s) w)"
    and "sent e' = sent (endpoint_of s w)"
  shows "channel_inv (set_endpoint s e' w)"
proof -
  from assms have "channel_inv (set_endpoint s e' (w\<lparr>packets := packets w\<rparr>))"
    by (intro inv_update) simp_all
  then show ?thesis by simp
qed

lemma inv_channel_log_event [simp]: "channel_inv (channel_log_event ev w) = channel_inv w"
  by (simp add: channel_inv_def refs_of_def ok_ref_def)

lemma inv_fewer_deliveries:
  assumes "channel_inv w" and "set ds \<subseteq> set (deliveries w)"
  shows "channel_inv (w\<lparr>deliveries := ds\<rparr>)"
proof -
  have "refs_of (w\<lparr>deliveries := ds\<rparr>) s \<subseteq> refs_of w s" for s
    using assms(2) by (auto simp: refs_of_def)
  with assms(1) show ?thesis
    by (auto simp: channel_inv_def ok_ref_def)
qed

subsection \<open>Every event keeps the invariant\<close>

lemma channel_invD:
  assumes "channel_inv w"
  shows "wf_endpoint (endpoint_of s w)"
    and "base (endpoint_of s w) \<le> nextseq (endpoint_of s w)"
    and "last_acked (endpoint_of (peer s) w) < nextseq (endpoint_of s w)"
    and "last_acked (endpoint_of s w) < nextseq (endpoint_of (peer s) w)"
proof -
  from assms have a: "wf_endpoint (endpoint_of x w) \<and>
      base (endpoint_of x w) \<le> nextseq (endpoint_of x w) \<and>
      last_acked (endpoint_of (peer x) w) < nextseq (endpoint_of x w)" for x
    by (simp add: channel_inv_def)
  from a [of s] show "wf_endpoint (endpoint_of s w)"
    and "base (endpoint_of s w) \<le> nextseq (endpoint_of s w)"
    and "last_acked (endpoint_of (peer s) w) < nextseq (endpoint_of s w)"
    by simp_all
  from a [of "peer s"] show "last_acked (endpoint_of s w) < nextseq (endpoint_of (peer s) w)"
    by simp
qed

lemma send_data_frame:
  "last_acked (fst (snd (send_data data now e st))) = last_acked e"
  "base (fst (snd (send_data data now e st))) = base e"
  "next_ref st \<le> next_ref (fst (snd (snd (send_data data now e st))))"
  "r < next_ref st \<Longrightarrow> cells (fst (snd (snd (send_data data now e st)))) r = cells st r"
  by (simp_all add: send_data_def alloc_def Let_def)

lemma send_data_next_ref:
  assumes "fst (send_data data now e st)"
  shows "next_ref (fst (snd (snd (send_data data now e st)))) = next_ref st + 1"
  using assms by (simp add: send_data_def alloc_def Let_def split: if_splits)

lemma inv_app_send_data:
  assumes inv: "channel_inv w"
  shows "channel_inv (snd (app_send_data s data now d w))"
proof -
  let ?e = "endpoint_of s w"
  let ?res = "send_data data now ?e (packets w)"
  let ?e' = "fst (snd ?res)"
  let ?st' = "fst (snd (snd ?res))"
  let ?w1 = "set_endpoint s ?e' (w\<lparr>packets := ?st'\<rparr>)"
  from inv have wf: "wf_endpoint ?e" and b: "base ?e \<le> nextseq ?e"
    and la: "last_acked ?e < nextseq (endpoint_of (peer s) w)"
    by (rule channel_invD)+
  show ?thesis
  proof (cases "fst ?res")
    case False
    then have "?res = (False, ?e, packets w, [])"
      by (rule send_data_rejected)
    then have "snd (app_send_data s data now d w) = set_endpoint s ?e (w\<lparr>packets := packets w\<rparr>)"
      by (simp add: app_send_data_def Let_def)
    moreover from inv wf b la have "channel_inv (set_endpoint s ?e (w\<lparr>packets := packets w\<rparr>))"
      by (intro inv_update) simp_all
    ultimately show ?thesis by simp
  next
    case True
    note acc = send_data_accepted [OF True]
    have ran: "r \<in> ran (sent ?e) \<or> r = next_ref (packets w)" if "r \<in> ran (sent ?e')" for r
      using that unfolding acc(3) by (auto simp: ran_def split: if_splits)
    have fresh: "sender_ok ?e' (cells ?st' (next_ref (packets w)))"
      unfolding acc(2) by (simp add: sender_ok_def data_packet_def acc(6))
    have below: "next_ref (packets w) < next_ref ?st'"
      by (simp add: send_data_next_ref [OF True])
    have "channel_inv ?w1"
    proof (rule inv_update [OF inv])
      show "wf_endpoint ?e'" using wf by (rule wf_send_data)
      show "base ?e' \<le> nextseq ?e'" using b by (simp add: acc)
      show "nextseq ?e \<le> nextseq ?e'" by (simp add: acc)
      show "last_acked ?e \<le> last_acked ?e'" by (simp add: send_data_frame)
      show "last_acked ?e' < nextseq (endpoint_of (peer s) w)" using la by (simp add: send_data_frame)
      show "next_ref (packets w) \<le> next_ref ?st'" by (rule send_data_frame)
      show "\<forall>r<next_ref (packets w). cells ?st' r = cells (packets w) r"
        by (simp add: send_data_frame)
      show "\<forall>r\<in>ran (sent ?e'). r \<in> ran (sent ?e) \<or> r < next_ref ?st' \<and> sender_ok ?e' (cells ?st' r)"
        using ran fresh below by blast
    qed
    moreover have "ok_ref ?w1 s (next_ref (packets w))"
      using fresh below by (simp add: ok_ref_def)
    ultimately have "channel_inv (send_all s [next_ref (packets w)] d ?w1)"
      by (intro inv_send_all) simp_all
    then show ?thesis
      by (simp add: app_send_data_def Let_def acc(1))
  qed
qed

lemma timeout_frame:
  "base (fst (timeout now e)) = base e"
  "nextseq (fst (timeout now e)) = nextseq e"
  "last_acked (fst (timeout now e)) = last_acked e"
  "sent (fst (timeout now e)) = sent e"
  "set (snd (timeout now e)) \<subseteq> ran (sent e)"
  by (auto simp: timeout_def Let_def ran_def split: option.split)

lemma inv_timer_fire:
  assumes inv: "channel_inv w"
  shows "channel_inv (timer_fire s now d w)"
proof -
  let ?e = "endpoint_of s w"
  let ?w1 = "set_endpoint s (fst (timeout now ?e)) w"
  from inv have wf: "wf_endpoint ?e" and b: "base ?e \<le> nextseq ?e"
    and la: "last_acked ?e < nextseq (endpoint_of (peer s) w)"
    by (rule channel_invD)+
  from inv wf_timeout [OF wf] b la have 1: "channel_inv ?w1"
    by (intro inv_update_endpoint) (simp_all add: timeout_frame)
  have "ok_ref ?w1 s r" if "r \<in> set (snd (timeout now ?e))" for r
  proof -
    from timeout_frame(5) [where now = now and e = ?e] that have "r \<in> ran (sent ?e)"
      by (rule subsetD)
    then have "r \<in> ran (sent (fst (timeout now ?e)))"
      by (simp add: timeout_frame)
    then have "r \<in> refs_of ?w1 s" by (simp add: refs_of_def)
    with 1 show ?thesis by (simp add: channel_inv_def)
  qed
  with 1 have "channel_inv (send_all s (snd (timeout now ?e)) d ?w1)"
    by (intro inv_send_all) simp_all
  then show ?thesis by (simp add: timer_fire_def Let_def)
qed

lemma inv_app_recv_data:
  assumes inv: "channel_inv w"
  shows "channel_inv (snd (app_recv_data s w))"
proof -
  let ?e = "endpoint_of s w"
  from inv have wf: "wf_endpoint ?e" and b: "base ?e \<le> nextseq ?e"
    and la: "last_acked ?e < nextseq (endpoint_of (peer s) w)"
    by (rule channel_invD)+
  have f: "base (snd (recv_app_data ?e)) = base ?e" "nextseq (snd (recv_app_data ?e)) = nextseq ?e"
    "last_acked (snd (recv_app_data ?e)) = last_acked ?e" "sent (snd (recv_app_data ?e)) = sent ?e"
    by (simp_all add: recv_app_data_def split: list.split)
  from inv wf_recv_app_data [OF wf] b la have "channel_inv (set_endpoint s (snd (recv_app_data ?e)) w)"
    by (intro inv_update_endpoint) (simp_all add: f)
  then show ?thesis by (simp add: app_recv_data_def Let_def)
qed

lemma inv_deliver:
  assumes inv: "channel_inv w"
  shows "channel_inv (deliver i now d w)"
proof (cases "i < length (deliveries w)")
  case False
  with inv show ?thesis by (simp add: deliver_def)
next
  case True
  let ?item = "deliveries w ! i"
  let ?dir = "fst (snd ?item)"
  let ?r = "snd (snd ?item)"
  let ?rcv = "peer ?dir"
  let ?w1 = "w\<lparr>deliveries := take i (deliveries w) @ drop (Suc i) (deliveries w)\<rparr>"
  let ?pkt = "cells (packets w) ?r"
  let ?w2 = "channel_log_event ''PACKET_DELIVERED'' ?w1"
  let ?e = "endpoint_of ?rcv w"
  have "set (take i (deliveries w) @ drop (Suc i) (deliveries w)) \<subseteq> set (deliveries w)"
    using set_take_subset [of i "deliveries w"] set_drop_subset [of "Suc i" "deliveries w"]
    by auto
  with inv have inv1: "channel_inv ?w1"
    by (rule inv_fewer_deliveries)
  then have inv2: "channel_inv ?w2" by simp
  from True have "?item \<in> set (deliveries w)" by simp
  then have "?r \<in> refs_of w ?dir" by (auto simp: refs_of_def)
  with inv have ok: "sender_ok (endpoint_of ?dir w) ?pkt"
    by (simp add: channel_inv_def ok_ref_def)
  from inv have wf: "wf_endpoint ?e" and b: "base ?e \<le> nextseq ?e"
    by (rule channel_invD)+
  from channel_invD(3) [OF inv, of ?dir] have la: "last_acked ?e < nextseq (endpoint_of ?dir w)" .
  from channel_invD(4) [OF inv, of ?dir] have la': "last_acked (endpoint_of ?dir w) < nextseq ?e" .
  from ok have data: "pkt_type ?pkt = Some ''DATA'' \<longrightarrow>
      (\<forall>sq. pkt_seq ?pkt = Some sq \<longrightarrow> sq < nextseq (endpoint_of ?dir w))"
    by (simp add: sender_ok_def)
  from ok la' have ack: "pkt_type ?pkt = Some ''ACK'' \<longrightarrow>
      (\<forall>a. pkt_ack ?pkt = Some a \<longrightarrow> a < nextseq ?e)"
    by (fastforce simp: sender_ok_def)
  note keeps = on_receive_keeps [OF wf b la data ack, where now = now and st = "packets w"]
  show ?thesis
  proof (cases "verify_checksum ?pkt")
    case False
    with True inv1 show ?thesis
      by (simp add: deliver_def Let_def)
  next
    case valid: True
    show ?thesis
    proof (cases "on_receive ?pkt now ?e (packets w)")
      case (Inl err)
      with keeps inv2 have "channel_inv (set_endpoint ?rcv (snd err) ?w2)"
        by (intro inv_update_endpoint) simp_all
      with True valid Inl show ?thesis
        by (simp add: deliver_def Let_def)
    next
      case (Inr res)
      obtain e' st' out where res: "res = (e', st', out)"
        by (cases res)
      let ?w3 = "set_endpoint ?rcv e' (?w2\<lparr>packets := st'\<rparr>)"
      from keeps Inr res have k: "wf_endpoint e'" "base e' \<le> nextseq e'"
        "nextseq e' = nextseq ?e" "sent e' = sent ?e" "last_acked ?e \<le> last_acked e'"
        "last_acked e' < nextseq (endpoint_of ?dir w)"
        by simp_all
      from Inr res have "on_receive ?pkt now ?e (packets w) = Inr (e', st', out)"
        by simp
      from on_receive_outputs [OF this]
      have outs: "(st' = packets w \<and> set out \<subseteq> ran (sent ?e)) \<or>
          (st' = snd (alloc (ack_packet (last_acked e')) (packets w)) \<and>
           out = [next_ref (packets w)])" .
      then have st: "next_ref (packets w) \<le> next_ref st'"
        "\<forall>r<next_ref (packets w). cells st' r = cells (packets w) r"
        by (auto simp: alloc_def)
      from inv2 k st have inv3: "channel_inv ?w3"
        by (intro inv_update) simp_all
      have "ok_ref ?w3 ?rcv r" if "r \<in> set out" for r
        using outs
      proof
        assume "st' = packets w \<and> set out \<subseteq> ran (sent ?e)"
        with that k(4) have "r \<in> refs_of ?w3 ?rcv"
          by (auto simp: refs_of_def)
        with inv3 show ?thesis by (simp add: channel_inv_def)
      next
        assume "st' = snd (alloc (ack_packet (last_acked e')) (packets w)) \<and>
           out = [next_ref (packets w)]"
        with that show ?thesis
          by (simp add: ok_ref_def alloc_def sender_ok_def ack_packet_def)
      qed
      with inv3 have "channel_inv (send_all ?rcv out d ?w3)"
        by (intro inv_send_all) simp_all
      with True valid Inr res show ?thesis
        by (simp add: deliver_def Let_def)
    qed
  qed
qed

lemma inv_step:
  assumes "channel_inv w"
  shows "channel_inv (fst (step w ev))"
proof (cases ev)
  case (Send_data s data now d)
  with inv_app_send_data [OF assms] show ?thesis by (simp add: Let_def)
next
  case (Recv_app_data s)
  with inv_app_recv_data [OF assms] show ?thesis by (simp add: Let_def)
next
  case (Timer_fire s now d)
  with inv_timer_fire [OF assms] show ?thesis by simp
next
  case (Deliver i now d)
  with inv_deliver [OF assms] show ?thesis by simp
qed

lemma inv_wired:
  assumes "\<forall>l. ab_link = Some l \<longrightarrow> reorder_buffer l = None"
    and "\<forall>l. ba_link = Some l \<longrightarrow> reorder_buffer l = None"
  shows "channel_inv (wired (new_endpoint nm init_rto_ms al be kk ecc ssthresh_init cwnd_init ai md)
     (new_endpoint nm' init_rto_ms' al' be' kk' ecc' ssthresh_init' cwnd_init' ai' md')
     ab_link ba_link logging)"
  unfolding channel_inv_def
proof (intro allI)
  fix s
  let ?w = "wired (new_endpoint nm init_rto_ms al be kk ecc ssthresh_init cwnd_init ai md)
     (new_endpoint nm' init_rto_ms' al' be' kk' ecc' ssthresh_init' cwnd_init' ai' md')
     ab_link ba_link logging"
  have e: "endpoint_of s ?w = new_endpoint nm init_rto_ms al be kk ecc ssthresh_init cwnd_init ai md \<or>
     endpoint_of s ?w = new_endpoint nm' init_rto_ms' al' be' kk' ecc' ssthresh_init' cwnd_init' ai' md'"
    for s
    by (simp add: wired_def new_channel_def endpoint_of_def)
  have f: "base (endpoint_of s ?w) = 0" "nextseq (endpoint_of s ?w) = 0"
    "last_acked (endpoint_of s ?w) = - 1" "sent (endpoint_of s ?w) = Map.empty"
    "wf_endpoint (endpoint_of s ?w)" for s
    using e [of s] by (auto simp: new_endpoint_def wf_endpoint_def)
  have "reorder_buffer (link_of s ?w) = None"
    using assms
    by (cases ab_link; cases ba_link; simp add: wired_def new_channel_def link_of_def new_link_def)
  moreover have "deliveries ?w = []"
    by (simp add: wired_def new_channel_def)
  ultimately have "refs_of ?w s = {}"
    by (simp add: refs_of_def f)
  then show "wf_endpoint (endpoint_of s ?w) \<and>
    base (endpoint_of s ?w) \<le> nextseq (endpoint_of s ?w) \<and>
    last_acked (endpoint_of (peer s) ?w) < nextseq (endpoint_of s ?w) \<and>
    (\<forall>r \<in> refs_of ?w s. ok_ref ?w s r)"
    by (simp add: f)
qed

lemma run_reachable:
  assumes "reachable w0 w"
  shows "reachable w0 (fst (run w evs))"
  using assms
proof (induction evs arbitrary: w)
  case Nil
  then show ?case by simp
next
  case (Cons ev evs)
  from Cons.prems have "reachable w0 (fst (step w ev))"
    by (rule reach_step)
  then have "reachable w0 (fst (run (fst (step w ev)) evs))"
    by (rule Cons.IH)
  then show ?case by (simp add: Let_def)
qed

text \<open>
  Claim C2, as the code has it. Two endpoints made by the constructor are wired by a
  channel whose links hold no packet. In every state of every execution, for each of the
  two endpoints: \<open>0 \<le> base \<le> nextseq\<close>, and \<^verbatim>\<open>sent\<close> has as keys exactly the sequence
  numbers assigned so far, \<open>0, \<dots>, nextseq - 1\<close>: one entry for each of them, also for
  those below \<^verbatim>\<open>base\<close> (no entry is ever removed), and none for any other number.
\<close>

theorem sender_window_invariant:
  assumes "reachable
      (wired (new_endpoint nm init_rto_ms al be kk ecc ssthresh_init cwnd_init ai md)
         (new_endpoint nm' init_rto_ms' al' be' kk' ecc' ssthresh_init' cwnd_init' ai' md')
         ab_link ba_link logging) w"
    and "\<forall>l. ab_link = Some l \<longrightarrow> reorder_buffer l = None"
    and "\<forall>l. ba_link = Some l \<longrightarrow> reorder_buffer l = None"
  shows "0 \<le> base (endpoint_of s w) \<and> base (endpoint_of s w) \<le> nextseq (endpoint_of s w) \<and>
     dom (sent (endpoint_of s w)) = {0..<nextseq (endpoint_of s w)}"
proof -
  from assms(1) have "channel_inv w"
  proof (induction rule: reachable.induct)
    case reach_start
    from assms(2,3) show ?case by (rule inv_wired)
  next
    case (reach_step w ev)
    then show ?case by (simp add: inv_step)
  qed
  then have "wf_endpoint (endpoint_of s w)" and "base (endpoint_of s w) \<le> nextseq (endpoint_of s w)"
    by (simp_all add: channel_inv_def)
  then show ?thesis
    by (simp add: wf_endpoint_def)
qed


text \<open>
  An execution with nothing lost, over a link from A to B with a delay of 40 ms and the
  default link back: A sends one payload, B receives it and acknowledges, A receives
  the ACK.
\<close>

theorem sender_window_invariant_witness:
  "reachable
     (wired (new_endpoint ''A'' 200 (1 / 8) (1 / 4) 4 True 65535 1 1 (1 / 2))
        (new_endpoint ''B'' 200 (1 / 8) (1 / 4) 4 True 65535 1 1 (1 / 2)) (Some (new_link 0 40 5 0 0)) None True)
     (fst (run (wired (new_endpoint ''A'' 200 (1 / 8) (1 / 4) 4 True 65535 1 1 (1 / 2))
        (new_endpoint ''B'' 200 (1 / 8) (1 / 4) 4 True 65535 1 1 (1 / 2)) (Some (new_link 0 40 5 0 0)) None True)
       [Send_data Side_A [1] 0
          \<lparr>drop_draw = 1 / 2, corrupt_draw = 1 / 2, corrupt_index = 0, reorder_draw = 1 / 2,
           jitter_draw = 0\<rparr>,
        Deliver 0 (1 / 20)
          \<lparr>drop_draw = 1 / 2, corrupt_draw = 1 / 2, corrupt_index = 0, reorder_draw = 1 / 2,
           jitter_draw = 0\<rparr>,
        Deliver 0 (1 / 10)
          \<lparr>drop_draw = 1 / 2, corrupt_draw = 1 / 2, corrupt_index = 0, reorder_draw = 1 / 2,
           jitter_draw = 0\<rparr>])) \<and>
   reorder_buffer (new_link 0 40 5 0 0) = None \<and>
   base (endpoint_of Side_A
     (fst (run (wired (new_endpoint ''A'' 200 (1 / 8) (1 / 4) 4 True 65535 1 1 (1 / 2))
        (new_endpoint ''B'' 200 (1 / 8) (1 / 4) 4 True 65535 1 1 (1 / 2)) (Some (new_link 0 40 5 0 0)) None True)
       [Send_data Side_A [1] 0
          \<lparr>drop_draw = 1 / 2, corrupt_draw = 1 / 2, corrupt_index = 0, reorder_draw = 1 / 2,
           jitter_draw = 0\<rparr>,
        Deliver 0 (1 / 20)
          \<lparr>drop_draw = 1 / 2, corrupt_draw = 1 / 2, corrupt_index = 0, reorder_draw = 1 / 2,
           jitter_draw = 0\<rparr>,
        Deliver 0 (1 / 10)
          \<lparr>drop_draw = 1 / 2, corrupt_draw = 1 / 2, corrupt_index = 0, reorder_draw = 1 / 2,
           jitter_draw = 0\<rparr>]))) = 1 \<and>
   dom (sent (endpoint_of Side_A
     (fst (run (wired (new_endpoint ''A'' 200 (1 / 8) (1 / 4) 4 True 65535 1 1 (1 / 2))
        (new_endpoint ''B'' 200 (1 / 8) (1 / 4) 4 True 65535 1 1 (1 / 2)) (Some (new_link 0 40 5 0 0)) None True)
       [Send_data Side_A [1] 0
          \<lparr>drop_draw = 1 / 2, corrupt_draw = 1 / 2, corrupt_index = 0, reorder_draw = 1 / 2,
           jitter_draw = 0\<rparr>,
        Deliver 0 (1 / 20)
          \<lparr>drop_draw = 1 / 2, corrupt_draw = 1 / 2, corrupt_index = 0, reorder_draw = 1 / 2,
           jitter_draw = 0\<rparr>,
        Deliver 0 (1 / 10)
          \<lparr>drop_draw = 1 / 2, corrupt_draw = 1 / 2, corrupt_index = 0, reorder_draw = 1 / 2,
           jitter_draw = 0\<rparr>])))) = {0..<1}"
proof -
  let ?start = "wired (new_endpoint ''A'' 200 (1 / 8) (1 / 4) 4 True 65535 1 1 (1 / 2))
        (new_endpoint ''B'' 200 (1 / 8) (1 / 4) 4 True 65535 1 1 (1 / 2)) (Some (new_link 0 40 5 0 0)) None True"
  let ?w = "fst (run ?start
       [Send_data Side_A [1] 0
          \<lparr>drop_draw = 1 / 2, corrupt_draw = 1 / 2, corrupt_index = 0, reorder_draw = 1 / 2,
           jitter_draw = 0\<rparr>,
        Deliver 0 (1 / 20)
          \<lparr>drop_draw = 1 / 2, corrupt_draw = 1 / 2, corrupt_index = 0, reorder_draw = 1 / 2,
           jitter_draw = 0\<rparr>,
        Deliver 0 (1 / 10)
          \<lparr>drop_draw = 1 / 2, corrupt_draw = 1 / 2, corrupt_index = 0, reorder_draw = 1 / 2,
           jitter_draw = 0\<rparr>])"
  have r: "reachable ?start ?w"
    by (intro run_reachable reach_start)
  have n: "\<forall>l. Some (new_link 0 40 5 0 0) = Some l \<longrightarrow> reorder_buffer l = None"
    by (simp add: new_link_def)
  have n': "\<forall>l. (None :: link option) = Some l \<longrightarrow> reorder_buffer l = None"
    by simp
  have v: "base (endpoint_of Side_A ?w) = 1" "nextseq (endpoint_of Side_A ?w) = 1"
    by (simp_all add: endpoint_defs channel_defs cong: let_weak_cong)
  from sender_window_invariant [OF r n n', of Side_A]
  have d: "dom (sent (endpoint_of Side_A ?w)) = {0..<nextseq (endpoint_of Side_A ?w)}"
    by blast
  have "dom (sent (endpoint_of Side_A ?w)) = {0..<1}"
    using d unfolding v(2) .
  moreover have "reorder_buffer (new_link 0 40 5 0 0) = None"
    by (simp add: new_link_def)
  ultimately show ?thesis using r v(1) by blast
qed

text \<open>
  Claim C2 as stated fails: \<^verbatim>\<open>sent\<close> keeps the entries of acknowledged packets. After
  the execution above \<^verbatim>\<open>base = nextseq = 1\<close>, the interval from \<^verbatim>\<open>base\<close> to
  \<^verbatim>\<open>nextseq\<close> is empty, and \<^verbatim>\<open>sent\<close> still has the key 0.
\<close>

theorem sent_keeps_acknowledged_packets:
  "base (endpoint_A (fst (run (wired (default_endpoint ''A'') (default_endpoint ''B'') (Some (new_link 0 40 5 0 0)) None True)
       [Send_data Side_A [1] 0
          \<lparr>drop_draw = 1 / 2, corrupt_draw = 1 / 2, corrupt_index = 0, reorder_draw = 1 / 2,
           jitter_draw = 0\<rparr>,
        Deliver 0 (1 / 20)
          \<lparr>drop_draw = 1 / 2, corrupt_draw = 1 / 2, corrupt_index = 0, reorder_draw = 1 / 2,
           jitter_draw = 0\<rparr>,
        Deliver 0 (1 / 10)
          \<lparr>drop_draw = 1 / 2, corrupt_draw = 1 / 2, corrupt_index = 0, reorder_draw = 1 / 2,
           jitter_draw = 0\<rparr>]))) = 1 \<and>
   nextseq (endpoint_A (fst (run (wired (default_endpoint ''A'') (default_endpoint ''B'') (Some (new_link 0 40 5 0 0)) None True)
       [Send_data Side_A [1] 0
          \<lparr>drop_draw = 1 / 2, corrupt_draw = 1 / 2, corrupt_index = 0, reorder_draw = 1 / 2,
           jitter_draw = 0\<rparr>,
        Deliver 0 (1 / 20)
          \<lparr>drop_draw = 1 / 2, corrupt_draw = 1 / 2, corrupt_index = 0, reorder_draw = 1 / 2,
           jitter_draw = 0\<rparr>,
        Deliver 0 (1 / 10)
          \<lparr>drop_draw = 1 / 2, corrupt_draw = 1 / 2, corrupt_index = 0, reorder_draw = 1 / 2,
           jitter_draw = 0\<rparr>]))) = 1 \<and>
   sent (endpoint_A (fst (run (wired (default_endpoint ''A'') (default_endpoint ''B'') (Some (new_link 0 40 5 0 0)) None True)
       [Send_data Side_A [1] 0
          \<lparr>drop_draw = 1 / 2, corrupt_draw = 1 / 2, corrupt_index = 0, reorder_draw = 1 / 2,
           jitter_draw = 0\<rparr>,
        Deliver 0 (1 / 20)
          \<lparr>drop_draw = 1 / 2, corrupt_draw = 1 / 2, corrupt_index = 0, reorder_draw = 1 / 2,
           jitter_draw = 0\<rparr>,
        Deliver 0 (1 / 10)
          \<lparr>drop_draw = 1 / 2, corrupt_draw = 1 / 2, corrupt_index = 0, reorder_draw = 1 / 2,
           jitter_draw = 0\<rparr>]))) 0 = Some 0 \<and>
   (0 :: int) \<notin> {1..<1}"
  by (simp add: endpoint_defs channel_defs cong: let_weak_cong)

section \<open>A corrupted payload reaches the application\<close>

text \<open>
  Claim C1 does not hold of the code. The link from A to B corrupts with probability
  0.5. A sends the payload \<open>[97]\<close>; the channel stamps the checksum and then
  \<^verbatim>\<open>maybe_corrupt\<close> writes \<open>[98]\<close> into the packet, which is the dictionary that A keeps
  in \<^verbatim>\<open>sent[0]\<close>. The delivery fails the checksum and the packet is dropped. A's timer
  fires and A resends \<^verbatim>\<open>sent[0]\<close>: \<^verbatim>\<open>add_checksum\<close> stamps the dictionary again, now
  over the payload \<open>[98]\<close>, nothing is corrupted this time, the checksum is valid at the
  delivery, and B hands \<open>[98]\<close> to the application. What \<^verbatim>\<open>recv_app_data\<close> returns at B
  is not a prefix of what \<^verbatim>\<open>send_data\<close> accepted at A.
\<close>

theorem corrupted_payload_delivered:
  "accepted_by Side_A (snd (run
      (wired (default_endpoint ''A'') (default_endpoint ''B'')
         (Some (new_link 0 50 10 0 (1 / 2))) None True)
      [Send_data Side_A [97] 0
         \<lparr>drop_draw = 9 / 10, corrupt_draw = 1 / 10, corrupt_index = 0, reorder_draw = 1 / 2,
          jitter_draw = 0\<rparr>,
       Deliver 0 (1 / 20)
         \<lparr>drop_draw = 9 / 10, corrupt_draw = 9 / 10, corrupt_index = 0, reorder_draw = 1 / 2,
          jitter_draw = 0\<rparr>,
       Timer_fire Side_A (1 / 5)
         \<lparr>drop_draw = 9 / 10, corrupt_draw = 9 / 10, corrupt_index = 0, reorder_draw = 1 / 2,
          jitter_draw = 0\<rparr>,
       Deliver 0 (1 / 4)
         \<lparr>drop_draw = 9 / 10, corrupt_draw = 9 / 10, corrupt_index = 0, reorder_draw = 1 / 2,
          jitter_draw = 0\<rparr>,
       Recv_app_data Side_B])) = [[97]] \<and>
   received_by Side_B (snd (run
      (wired (default_endpoint ''A'') (default_endpoint ''B'')
         (Some (new_link 0 50 10 0 (1 / 2))) None True)
      [Send_data Side_A [97] 0
         \<lparr>drop_draw = 9 / 10, corrupt_draw = 1 / 10, corrupt_index = 0, reorder_draw = 1 / 2,
          jitter_draw = 0\<rparr>,
       Deliver 0 (1 / 20)
         \<lparr>drop_draw = 9 / 10, corrupt_draw = 9 / 10, corrupt_index = 0, reorder_draw = 1 / 2,
          jitter_draw = 0\<rparr>,
       Timer_fire Side_A (1 / 5)
         \<lparr>drop_draw = 9 / 10, corrupt_draw = 9 / 10, corrupt_index = 0, reorder_draw = 1 / 2,
          jitter_draw = 0\<rparr>,
       Deliver 0 (1 / 4)
         \<lparr>drop_draw = 9 / 10, corrupt_draw = 9 / 10, corrupt_index = 0, reorder_draw = 1 / 2,
          jitter_draw = 0\<rparr>,
       Recv_app_data Side_B])) = [[98]] \<and>
   \<not> prefix [[98 :: byte]] [[97]]"
  by (simp add: endpoint_defs channel_defs cong: let_weak_cong)

text \<open>
  Claim C6 does not hold of the code: a packet that \<^verbatim>\<open>maybe_corrupt\<close> has changed passes
  the verification at its delivery. The first two parts of the claim hold (theorem
  \<open>checksum_roundtrip_and_detection\<close>); the delivery is where the code departs. The
  link from A to B has a delay of 500 ms and corrupts with probability 0.5. A sends
  \<open>[97]\<close>; the packet is stamped, changed to \<open>[98]\<close> and marked, and its delivery
  timer is started. After 200 ms A's retransmission timer fires and A resends
  \<^verbatim>\<open>sent[0]\<close>, the same dictionary, which \<^verbatim>\<open>add_checksum\<close> stamps again. When the
  first delivery timer runs, the changed and marked packet has a valid checksum, and B
  hands \<open>[98]\<close> to the application.
\<close>

theorem changed_packet_passes_verification:
  "deliveries (fst (run
      (wired (default_endpoint ''A'') (default_endpoint ''B'')
         (Some (new_link 0 500 0 0 (1 / 2))) None True)
      [Send_data Side_A [97] 0
         \<lparr>drop_draw = 9 / 10, corrupt_draw = 1 / 10, corrupt_index = 0, reorder_draw = 1 / 2,
          jitter_draw = 0\<rparr>])) = [(1 / 2, Side_A, 0)] \<and>
   pkt_payload (cells (packets (fst (run
      (wired (default_endpoint ''A'') (default_endpoint ''B'')
         (Some (new_link 0 500 0 0 (1 / 2))) None True)
      [Send_data Side_A [97] 0
         \<lparr>drop_draw = 9 / 10, corrupt_draw = 1 / 10, corrupt_index = 0, reorder_draw = 1 / 2,
          jitter_draw = 0\<rparr>]))) 0) = Some [98] \<and>
   \<not> verify_checksum (cells (packets (fst (run
      (wired (default_endpoint ''A'') (default_endpoint ''B'')
         (Some (new_link 0 500 0 0 (1 / 2))) None True)
      [Send_data Side_A [97] 0
         \<lparr>drop_draw = 9 / 10, corrupt_draw = 1 / 10, corrupt_index = 0, reorder_draw = 1 / 2,
          jitter_draw = 0\<rparr>]))) 0) \<and>
   deliveries (fst (run
      (wired (default_endpoint ''A'') (default_endpoint ''B'')
         (Some (new_link 0 500 0 0 (1 / 2))) None True)
      [Send_data Side_A [97] 0
         \<lparr>drop_draw = 9 / 10, corrupt_draw = 1 / 10, corrupt_index = 0, reorder_draw = 1 / 2,
          jitter_draw = 0\<rparr>,
       Timer_fire Side_A (1 / 5)
         \<lparr>drop_draw = 9 / 10, corrupt_draw = 9 / 10, corrupt_index = 0, reorder_draw = 1 / 2,
          jitter_draw = 0\<rparr>])) = [(1 / 2, Side_A, 0), (1 / 2, Side_A, 0)] \<and>
   pkt_corrupted (cells (packets (fst (run
      (wired (default_endpoint ''A'') (default_endpoint ''B'')
         (Some (new_link 0 500 0 0 (1 / 2))) None True)
      [Send_data Side_A [97] 0
         \<lparr>drop_draw = 9 / 10, corrupt_draw = 1 / 10, corrupt_index = 0, reorder_draw = 1 / 2,
          jitter_draw = 0\<rparr>,
       Timer_fire Side_A (1 / 5)
         \<lparr>drop_draw = 9 / 10, corrupt_draw = 9 / 10, corrupt_index = 0, reorder_draw = 1 / 2,
          jitter_draw = 0\<rparr>]))) 0) = Some True \<and>
   verify_checksum (cells (packets (fst (run
      (wired (default_endpoint ''A'') (default_endpoint ''B'')
         (Some (new_link 0 500 0 0 (1 / 2))) None True)
      [Send_data Side_A [97] 0
         \<lparr>drop_draw = 9 / 10, corrupt_draw = 1 / 10, corrupt_index = 0, reorder_draw = 1 / 2,
          jitter_draw = 0\<rparr>,
       Timer_fire Side_A (1 / 5)
         \<lparr>drop_draw = 9 / 10, corrupt_draw = 9 / 10, corrupt_index = 0, reorder_draw = 1 / 2,
          jitter_draw = 0\<rparr>]))) 0) \<and>
   received_by Side_B (snd (run
      (wired (default_endpoint ''A'') (default_endpoint ''B'')
         (Some (new_link 0 500 0 0 (1 / 2))) None True)
      [Send_data Side_A [97] 0
         \<lparr>drop_draw = 9 / 10, corrupt_draw = 1 / 10, corrupt_index = 0, reorder_draw = 1 / 2,
          jitter_draw = 0\<rparr>,
       Timer_fire Side_A (1 / 5)
         \<lparr>drop_draw = 9 / 10, corrupt_draw = 9 / 10, corrupt_index = 0, reorder_draw = 1 / 2,
          jitter_draw = 0\<rparr>,
       Deliver 0 (1 / 2)
         \<lparr>drop_draw = 9 / 10, corrupt_draw = 9 / 10, corrupt_index = 0, reorder_draw = 1 / 2,
          jitter_draw = 0\<rparr>,
       Recv_app_data Side_B])) = [[98]]"
  by (simp add: endpoint_defs channel_defs cong: let_weak_cong)


end
